theory Spec2Isabelle
  imports Main
begin

section \<open>Strings\<close>

text \<open>
  The TypeScript sources work on JavaScript strings. They are modelled as \<open>string\<close>
  (lists of 8-bit characters), so the model covers ASCII text; \<open>toLowerCase\<close> folds the
  letters \<open>A\<close> to \<open>Z\<close> and leaves every other character alone.
\<close>

definition toLowerCase_char :: "char \<Rightarrow> char" where
  "toLowerCase_char c =
     (case map_of (zip ''ABCDEFGHIJKLMNOPQRSTUVWXYZ'' ''abcdefghijklmnopqrstuvwxyz'') c of
        None \<Rightarrow> c
      | Some l \<Rightarrow> l)"

definition toLowerCase :: "string \<Rightarrow> string" where
  "toLowerCase s = map toLowerCase_char s"

text \<open>\<open>s.startsWith(p)\<close> and \<open>s.includes(p)\<close>.\<close>

fun startsWith :: "string \<Rightarrow> string \<Rightarrow> bool" where
  "startsWith s [] = True"
| "startsWith [] (p # ps) = False"
| "startsWith (c # cs) (p # ps) = (c = p \<and> startsWith cs ps)"

fun includes_str :: "string \<Rightarrow> string \<Rightarrow> bool" where
  "includes_str [] p = (p = [])"
| "includes_str (c # cs) p = (startsWith (c # cs) p \<or> includes_str cs p)"

text \<open>\<open>s.split(d)\<close> for a one-character separator: never empty, \<open>''''\<close> splits to \<open>['''']\<close>.\<close>

fun split_on :: "char \<Rightarrow> string \<Rightarrow> string list" where
  "split_on d [] = [[]]"
| "split_on d (c # cs) =
     (if c = d then [] # split_on d cs
      else (case split_on d cs of
              [] \<Rightarrow> [[c]]
            | r # rs \<Rightarrow> (c # r) # rs))"

text \<open>\<open>xs.join(' ')\<close>.\<close>

fun join_with :: "string \<Rightarrow> string list \<Rightarrow> string" where
  "join_with sep [] = []"
| "join_with sep [x] = x"
| "join_with sep (x # y # ys) = x @ sep @ join_with sep (y # ys)"

text \<open>\<open>xs.slice(-n)\<close>: the last \<open>n\<close> elements, all of them when there are fewer.\<close>

definition slice_last :: "nat \<Rightarrow> 'a list \<Rightarrow> 'a list" where
  "slice_last n xs = drop (length xs - n) xs"

text \<open>A whole number as a template string renders it: decimal digits, most significant
  first, after a minus sign when it is negative.\<close>

fun decimal :: "nat \<Rightarrow> string" where
  "decimal n = (if 10 \<le> n then decimal (n div 10) else []) @ [''0123456789'' ! (n mod 10)]"

definition render_int :: "int \<Rightarrow> string" where
  "render_int i = (if 0 \<le> i then decimal (nat i) else CHR ''-'' # decimal (nat (- i)))"

text \<open>JavaScript white space within ASCII, \<open>s.trim()\<close>, and \<open>s.trim()\<close> being the empty
  string.\<close>

definition is_space :: "char \<Rightarrow> bool" where
  "is_space c = (c \<in> set [CHR '' '', CHR 0x09, CHR 0x0A, CHR 0x0B, CHR 0x0C, CHR 0x0D])"

definition trim :: "string \<Rightarrow> string" where
  "trim s = rev (dropWhile is_space (rev (dropWhile is_space s)))"

definition blank :: "string \<Rightarrow> bool" where
  "blank l = list_all is_space l"

section \<open>Data model (types/AmpInstance.ts)\<close>

text \<open>
  String-literal union types become datatypes, interfaces become records, an optional
  field \<open>f?: T\<close> becomes \<open>T option\<close> with \<open>None\<close> for \<open>undefined\<close>. A \<open>Date\<close> is its
  epoch time in milliseconds.
\<close>

datatype status = Idle | Running | Error | Stopped | WaitingApproval | Authenticating

datatype auth_status = Authenticated | Pending | Failed | Unknown

datatype log_level = LDebug | LInfo | LWarn | LError

record PendingCommand =
  command :: string
  requiresApproval :: bool
  timestamp :: int

record Stats =
  promptsExecuted :: nat
  tokensUsed :: nat
  uptime :: nat
  restartCount :: nat
  lastRestart :: "int option"

text \<open>\<open>AmpSettings\<close>: the keys \<open>'amp.notifications.enabled'\<close>, \<open>'amp.mcpServers'\<close>,
  \<open>'amp.mcp.disable'\<close>, \<open>'amp.tools.disable'\<close> and \<open>'amp.commands.allowlist'\<close>.\<close>

record AmpSettings =
  notifications_enabled :: "bool option"
  mcpServers :: "(string \<times> string \<times> string list) list option"
  mcp_disable :: "string list option"
  tools_disable :: "string list option"
  commands_allowlist :: "string list option"

record InstanceConfig =
  cfg_name :: "string option"
  cfg_workingDirectory :: "string option"
  initialPrompt :: "string option"
  environment :: "(string \<times> string) list option"
  autoRestart :: "bool option"
  cfg_inactivityThreshold :: "int option"
  requireApproval :: "bool option"
  cfg_errorPatterns :: "string list option"
  logLevel :: "log_level option"
  cfg_threadId :: "string option"
  cfg_ampSettings :: "AmpSettings option"
  commandAllowlist :: "string list option"

record AmpInstance =
  instId :: string
  name :: string
  tmuxPane :: string
  status :: status
  createdAt :: int
  lastActivity :: int
  lastInactivityCheck :: int
  workingDirectory :: "string option"
  logFile :: "string option"
  outputLines :: "string list"
  currentPrompt :: "string option"
  threadId :: "string option"
  authStatus :: auth_status
  pendingCommand :: "PendingCommand option"
  stats :: Stats
  config :: InstanceConfig
  errorPatterns :: "string list"
  inactivityThreshold :: int
  ampSettings :: "AmpSettings option"

section \<open>The log monitor (services/AmpLogMonitor.ts)\<close>

text \<open>
  A parsed log line is a JSON value. \<open>JSON.parse\<close>, the \<open>Date\<close> constructor, \<open>String(v)\<close>
  and the two regular-expression matches belong to the JavaScript runtime, not to this
  repository: they are parameters of the model.
  \<^item> \<open>JSON_parse l\<close> is \<open>None\<close> when \<open>JSON.parse(l)\<close> throws; objects come back with
    distinct keys.
  \<^item> \<open>Date_time v\<close> is \<open>new Date(v).getTime()\<close>, with \<open>None\<close> for \<open>NaN\<close> (an invalid
    date); the argument \<open>None\<close> is \<open>undefined\<close>.
  \<^item> \<open>transition_match m\<close> is group 2 of the state-transition pattern matched against
    \<open>m\<close>, \<open>inference_match e\<close> is group 1 of the \<open>inferenceState\<close> pattern matched against
    \<open>JSON.stringify(e)\<close>.
\<close>

datatype json =
  JNull | JBool bool | JNum int | JStr string | JArr "json list" | JObj "(string \<times> json) list"

record jsrt =
  JSON_parse :: "string \<Rightarrow> json option"
  Date_time :: "json option \<Rightarrow> int option"
  String_of :: "json \<Rightarrow> string"
  transition_match :: "string \<Rightarrow> string option"
  inference_match :: "json \<Rightarrow> string option"

datatype state_type =
  AwaitingUserMessage | AwaitingAgent | CheckingAgentFile | Initial | UnknownState

record AmpState =
  st_type :: state_type
  statusMessage :: "string option"
  inferenceState :: "string option"
  st_lastActivity :: "int option"

datatype monitor_event =
  StateChanged AmpState AmpState json
| AmpStarted
| AmpIdle

text \<open>\<open>isRunning\<close> and \<open>wasRunning\<close> have the same body; \<open>now\<close> is their \<open>new Date()\<close>. A
  comparison with \<open>NaN\<close> is false.\<close>

definition isRunning :: "int \<Rightarrow> AmpState \<Rightarrow> bool" where
  "isRunning now st =
     (st_type st = AwaitingAgent \<or> statusMessage st = Some ''Thinking...'' \<or>
      ((case st_lastActivity st of None \<Rightarrow> False | Some t \<Rightarrow> now - t < 10000) \<and>
       st_type st \<noteq> AwaitingUserMessage))"

definition hasStateChanged :: "AmpState \<Rightarrow> AmpState \<Rightarrow> bool" where
  "hasStateChanged oldState newState =
     (st_type oldState \<noteq> st_type newState \<or>
      statusMessage oldState \<noteq> statusMessage newState \<or>
      inferenceState oldState \<noteq> inferenceState newState)"

text \<open>\<open>v.key\<close> on a parsed value other than \<open>null\<close>: \<open>undefined\<close> unless \<open>v\<close> is an
  object with that key.\<close>

definition jprop :: "json \<Rightarrow> string \<Rightarrow> json option" where
  "jprop v k = (case v of JObj kvs \<Rightarrow> map_of kvs k | _ \<Rightarrow> None)"

definition setWaiting :: "string option \<Rightarrow> AmpState \<Rightarrow> AmpState" where
  "setWaiting msg st = st\<lparr>st_type := AwaitingUserMessage, statusMessage := msg\<rparr>"

definition setAgent :: "string \<Rightarrow> AmpState \<Rightarrow> AmpState" where
  "setAgent msg st = st\<lparr>st_type := AwaitingAgent, statusMessage := Some msg\<rparr>"

text \<open>The blocks of \<open>processLogEntry\<close> that classify the message, in source order.\<close>

definition transitionBlock :: "jsrt \<Rightarrow> string \<Rightarrow> AmpState \<Rightarrow> AmpState" where
  "transitionBlock rt message st =
     (case transition_match rt message of
        None \<Rightarrow> st
      | Some newState \<Rightarrow>
          if newState = ''awaiting-user-message'' then setWaiting None st
          else if newState = ''awaiting-agent'' then setAgent ''Thinking...'' st
          else if newState = ''checking-agent-file'' then st\<lparr>st_type := CheckingAgentFile\<rparr>
          else st)"

definition mentionBlock :: "string \<Rightarrow> AmpState \<Rightarrow> AmpState" where
  "mentionBlock message st =
     (if includes_str message ''awaiting-user-message'' \<or> includes_str message ''ready for input''
      then setWaiting None st
      else if includes_str message ''awaiting-agent'' \<or> includes_str message ''processing''
      then setAgent ''Thinking...'' st
      else if includes_str message ''checking-agent-file'' then st\<lparr>st_type := CheckingAgentFile\<rparr>
      else if includes_str message ''initial'' \<or> includes_str message ''started''
      then st\<lparr>st_type := Initial\<rparr>
      else st)"

definition promptBlock :: "string \<Rightarrow> AmpState \<Rightarrow> AmpState" where
  "promptBlock message st =
     (if includes_str message ''Type'' \<and> includes_str message ''Enter''
      then setWaiting (Some ''Ready for input'') st
      else if includes_str message ''Interrupt'' \<and> includes_str message ''Ctrl+C''
      then setWaiting (Some ''Ready for input'') st
      else st)"

definition dataBlock :: "jsrt \<Rightarrow> json \<Rightarrow> AmpState \<Rightarrow> AmpState" where
  "dataBlock rt entry st =
     (case jprop entry ''data'' of
        Some (JObj kvs) \<Rightarrow>
          (let st1 = (case map_of kvs ''statusMessage'' of
                        None \<Rightarrow> st
                      | Some v \<Rightarrow> st\<lparr>statusMessage := Some (String_of rt v)\<rparr>)
           in case map_of kvs ''event'' of
                Some (JObj ekvs) \<Rightarrow>
                  (case map_of ekvs ''statusMessage'' of
                     None \<Rightarrow> st1
                   | Some v \<Rightarrow> st1\<lparr>statusMessage := Some (String_of rt v)\<rparr>)
              | _ \<Rightarrow> st1)
      | _ \<Rightarrow> st)"

definition workerBlock :: "jsrt \<Rightarrow> string \<Rightarrow> json \<Rightarrow> AmpState \<Rightarrow> AmpState" where
  "workerBlock rt message entry st =
     (if includes_str message ''worker-state''
      then (case inference_match rt entry of
              None \<Rightarrow> st
            | Some v \<Rightarrow> st\<lparr>inferenceState := Some v\<rparr>)
      else st)"

definition userMessageBlock :: "string \<Rightarrow> AmpState \<Rightarrow> AmpState" where
  "userMessageBlock message st =
     (if includes_str message ''Processing user message:'' \<or>
         includes_str message ''received user input''
      then setAgent ''Processing...'' st
      else st)"

definition completionBlock :: "string \<Rightarrow> AmpState \<Rightarrow> AmpState" where
  "completionBlock message st =
     (if includes_str message ''completed'' \<or> includes_str message ''finished''
      then setWaiting (Some ''Ready for input'') st
      else st)"

text \<open>
  \<open>processLogEntry\<close> returns whether it threw, the state it left and the events it
  emitted. Reading \<open>entry.timestamp\<close> of \<open>null\<close> is a \<open>TypeError\<close> before anything is
  assigned; \<open>message.match\<close> is a \<open>TypeError\<close> unless \<open>entry.message\<close> is a string, and by
  then \<open>lastActivity\<close> has been assigned.
\<close>

definition processLogEntry ::
  "jsrt \<Rightarrow> int \<Rightarrow> AmpState \<Rightarrow> json \<Rightarrow> bool \<times> AmpState \<times> monitor_event list" where
  "processLogEntry rt now st entry =
     (if entry = JNull then (True, st, [])
      else
        (let oldState = st;
             st1 = st\<lparr>st_lastActivity := Date_time rt (jprop entry ''timestamp'')\<rparr>
         in case jprop entry ''message'' of
              Some (JStr message) \<Rightarrow>
                (let st2 = completionBlock message (userMessageBlock message
                             (workerBlock rt message entry (dataBlock rt entry
                               (promptBlock message (mentionBlock message
                                 (transitionBlock rt message st1))))))
                 in (False, st2,
                     (if hasStateChanged oldState st2
                      then [StateChanged oldState st2 entry] else []) @
                     (if isRunning now st2 \<noteq> isRunning now oldState
                      then [if isRunning now st2 then AmpStarted else AmpIdle] else [])))
            | _ \<Rightarrow> (True, st1, [])))"

text \<open>The loop shared by \<open>parseLogContent\<close> and \<open>refreshState\<close>: a line that
  \<open>JSON.parse\<close> rejects is skipped, and so is whatever \<open>processLogEntry\<close> throws.\<close>

fun processLines ::
  "jsrt \<Rightarrow> int \<Rightarrow> string list \<Rightarrow> AmpState \<Rightarrow> AmpState \<times> monitor_event list" where
  "processLines rt now [] st = (st, [])"
| "processLines rt now (line # ls) st =
     (case JSON_parse rt line of
        None \<Rightarrow> processLines rt now ls st
      | Some logEntry \<Rightarrow>
          (case processLogEntry rt now st logEntry of
             (threw, st', evs) \<Rightarrow>
               (case processLines rt now ls st' of
                  (st'', evs') \<Rightarrow> (st'', evs @ evs'))))"

definition log_lines :: "string \<Rightarrow> string list" where
  "log_lines content = filter (\<lambda>line. \<not> blank line) (split_on CHR 0x0A content)"

definition parseLogContent ::
  "jsrt \<Rightarrow> int \<Rightarrow> string \<Rightarrow> AmpState \<Rightarrow> AmpState \<times> monitor_event list" where
  "parseLogContent rt now content st = processLines rt now (log_lines content) st"

definition initialState :: "int \<Rightarrow> AmpState" where
  "initialState now =
     \<lparr>st_type = UnknownState, statusMessage = None, inferenceState = None,
      st_lastActivity = Some now\<rparr>"

definition refreshState ::
  "jsrt \<Rightarrow> int \<Rightarrow> string \<Rightarrow> AmpState \<times> monitor_event list" where
  "refreshState rt now content =
     processLines rt now (slice_last 10 (log_lines content)) (initialState now)"

datatype event_type =
  PromptSent | CommandExecuted | ErrorDetected | RestartTriggered | InactivityDetected
| ApprovalRequired | StatusChanged | ThreadCreated | AuthStatusChanged | ToolUsed
| ThreadSwitched

datatype severity = Info | Warn | Err | Critical

text \<open>The \<open>data: any\<close> payload of an event is an object literal at every call site; it is
  kept as its key/value pairs. \<open>DSeconds ms\<close> is the number \<open>ms / 1000\<close>.\<close>

datatype dval = DStr string | DNum int | DSeconds int | DState AmpState | DUndefined

record AgentEvent =
  instanceId :: string
  ev_timestamp :: int
  ev_type :: event_type
  ev_data :: "(string \<times> dval) list"
  ev_severity :: severity

section \<open>The supervisor's state and its environment\<close>

text \<open>
  Every \<open>throw new Error(...)\<close> and every promise rejection is a value of \<open>exn\<close>, named after
  the message it carries. An operation returns the outcome together with the state it left
  behind: a JavaScript exception does not undo the assignments made before it.
\<close>

datatype exn =
  InstanceNotFound string
| NoPendingCommand string
| SessionNotInitialized
| TmuxFailed "string list"
| FsFailed string

text \<open>
  The environment is scripted: \<open>io\<close> lists the outcomes of the external calls still to come
  (\<open>tmux\<close> subprocesses and file-system calls), each with whether it succeeds, how long it
  takes and what it prints. When the script is used up, calls succeed at once and print
  nothing. \<open>clock\<close> is what \<open>new Date()\<close> reads.
\<close>

record io_outcome =
  io_ok :: bool
  io_elapsed :: nat
  io_stdout :: string

record world =
  sessionName :: string
  settingsDir :: string
  cwd :: string
  instances :: "(string \<times> AmpInstance) list"
  sessionExists :: bool
  outputMonitors :: "string list"
  logMonitors :: "(string \<times> AmpState) list"
  events :: "AgentEvent list"
  globalAmpSettings :: AmpSettings
  clock :: int
  io :: "io_outcome list"
  sent :: "string list list"

type_synonym 'a action = "world \<Rightarrow> (exn + 'a) \<times> world"

text \<open>A state update that cannot throw, and statements run in sequence until one throws.\<close>

definition ok :: "(world \<Rightarrow> world) \<Rightarrow> unit action" where
  "ok f w = (Inr (), f w)"

fun steps :: "unit action list \<Rightarrow> unit action" where
  "steps [] w = (Inr (), w)"
| "steps (m # ms) w =
     (case m w of
        (Inl e, w') \<Rightarrow> (Inl e, w')
      | (Inr u, w') \<Rightarrow> steps ms w')"

text \<open>\<open>await new Promise(resolve => setTimeout(resolve, ms))\<close>.\<close>

definition sleep :: "nat \<Rightarrow> world \<Rightarrow> world" where
  "sleep ms w = w\<lparr>clock := clock w + int ms\<rparr>"

text \<open>The registry \<open>instances: Map\<close> from instance id to \<open>AmpInstance\<close>, in insertion order.\<close>

definition getInstance :: "world \<Rightarrow> string \<Rightarrow> AmpInstance option" where
  "getInstance w i = map_of (instances w) i"

text \<open>An assignment to fields of the registered instance object.\<close>

definition updInstance :: "string \<Rightarrow> (AmpInstance \<Rightarrow> AmpInstance) \<Rightarrow> world \<Rightarrow> world" where
  "updInstance i f w =
     w\<lparr>instances := map (\<lambda>(k, v). if k = i then (k, f v) else (k, v)) (instances w)\<rparr>"

definition mapSet :: "string \<Rightarrow> AmpInstance \<Rightarrow> world \<Rightarrow> world" where
  "mapSet i v w =
     (if i \<in> fst ` set (instances w) then updInstance i (\<lambda>_. v) w
      else w\<lparr>instances := instances w @ [(i, v)]\<rparr>)"

definition mapDelete :: "string \<Rightarrow> world \<Rightarrow> world" where
  "mapDelete i w = w\<lparr>instances := filter (\<lambda>(k, v). k \<noteq> i) (instances w)\<rparr>"

definition emitEvent ::
  "string \<Rightarrow> event_type \<Rightarrow> (string \<times> dval) list \<Rightarrow> severity \<Rightarrow> world \<Rightarrow> world" where
  "emitEvent i ty d sev w =
     w\<lparr>events := events w @
        [\<lparr>instanceId = i, ev_timestamp = clock w, ev_type = ty, ev_data = d, ev_severity = sev\<rparr>]\<rparr>"

text \<open>\<open>runTmuxCommand\<close>: resolves with the trimmed output when the subprocess exits with
  code 0 and rejects otherwise. The arguments are logged in \<open>sent\<close>.\<close>

definition externalCall :: "exn \<Rightarrow> world \<Rightarrow> (exn + string) \<times> world" where
  "externalCall e w =
     (case io w of
        [] \<Rightarrow> (Inr [], w)
      | r # rest \<Rightarrow>
          (let w' = w\<lparr>io := rest, clock := clock w + int (io_elapsed r)\<rparr>
           in if io_ok r then (Inr (io_stdout r), w') else (Inl e, w')))"

definition runTmuxCommand :: "string list \<Rightarrow> string action" where
  "runTmuxCommand args w =
     (case externalCall (TmuxFailed args) (w\<lparr>sent := sent w @ [args]\<rparr>) of
        (Inl e, w') \<Rightarrow> (Inl e, w')
      | (Inr out, w') \<Rightarrow> (Inr (trim out), w'))"

definition tmux :: "string list \<Rightarrow> unit action" where
  "tmux args w =
     (case runTmuxCommand args w of
        (Inl e, w') \<Rightarrow> (Inl e, w')
      | (Inr out, w') \<Rightarrow> (Inr (), w'))"

definition fsCall :: "string \<Rightarrow> unit action" where
  "fsCall path w =
     (case externalCall (FsFailed path) w of
        (Inl e, w') \<Rightarrow> (Inl e, w')
      | (Inr out, w') \<Rightarrow> (Inr (), w'))"

definition target :: "world \<Rightarrow> AmpInstance \<Rightarrow> string" where
  "target w inst = sessionName w @ '':'' @ name inst"

section \<open>Command submission and approval (TmuxManager)\<close>

definition truthy :: "bool option \<Rightarrow> bool" where
  "truthy b = (b = Some True)"

definition status_str :: "status \<Rightarrow> string" where
  "status_str s =
     (case s of Idle \<Rightarrow> ''idle'' | Running \<Rightarrow> ''running'' | Error \<Rightarrow> ''error''
      | Stopped \<Rightarrow> ''stopped'' | WaitingApproval \<Rightarrow> ''waiting_approval''
      | Authenticating \<Rightarrow> ''authenticating'')"

text \<open>The loop of \<open>executePrompt\<close> over \<open>prompt.split('\n')\<close>: each line is typed into the
  pane; a line that is not the last is continued with \<open>' \'\<close> and Enter and followed by a
  100 ms pause, the last one is submitted with Enter.\<close>

fun sendLines :: "string \<Rightarrow> string list \<Rightarrow> unit action" where
  "sendLines tgt [] w = (Inr (), w)"
| "sendLines tgt [l] w =
     steps [tmux [''send-keys'', ''-t'', tgt, l],
            tmux [''send-keys'', ''-t'', tgt, ''Enter'']] w"
| "sendLines tgt (l # l' # ls) w =
     steps [tmux [''send-keys'', ''-t'', tgt, l],
            tmux [''send-keys'', ''-t'', tgt, [CHR '' '', CHR 0x5C], ''Enter''],
            ok (sleep 100),
            sendLines tgt (l' # ls)] w"

definition allowlist_of :: "AmpInstance \<Rightarrow> string list" where
  "allowlist_of inst =
     (case ampSettings inst of
        None \<Rightarrow> []
      | Some s \<Rightarrow> (case commands_allowlist s of None \<Rightarrow> [] | Some l \<Rightarrow> l))"

definition waitForApproval :: "string \<Rightarrow> string \<Rightarrow> world \<Rightarrow> world" where
  "waitForApproval i prompt w =
     emitEvent i ApprovalRequired [(''prompt'', DStr prompt)] Warn
       (updInstance i (\<lambda>inst. inst\<lparr>status := WaitingApproval,
          pendingCommand := Some \<lparr>command = prompt, requiresApproval = True,
                                   timestamp = clock w\<rparr>\<rparr>) w)"

definition executePrompt :: "string \<Rightarrow> string \<Rightarrow> unit action" where
  "executePrompt i prompt w =
     (case getInstance w i of
        None \<Rightarrow> (Inr (), w)
      | Some inst \<Rightarrow>
          (let isAllowed = list_ex (\<lambda>allowed.
                 includes_str (toLowerCase prompt) (toLowerCase allowed)) (allowlist_of inst)
           in if \<not> isAllowed \<and> truthy (requireApproval (config inst))
              then (Inr (), waitForApproval i prompt w)
              else steps
                [ok (updInstance i (\<lambda>x. x\<lparr>status := Running, currentPrompt := Some prompt,
                       lastActivity := clock w,
                       stats := (stats x)\<lparr>promptsExecuted := Suc (promptsExecuted (stats x))\<rparr>\<rparr>)),
                 ok (emitEvent i PromptSent [(''prompt'', DStr (take 100 prompt))] Info),
                 sendLines (target w inst) (split_on CHR 0x0A prompt),
                 ok (emitEvent i CommandExecuted [(''prompt'', DStr (take 100 prompt))] Info)]
                w))"

definition sendPrompt :: "string \<Rightarrow> string \<Rightarrow> unit action" where
  "sendPrompt i prompt w =
     (case getInstance w i of
        None \<Rightarrow> (Inl (InstanceNotFound i), w)
      | Some inst \<Rightarrow>
          if truthy (requireApproval (config inst))
          then (Inr (), waitForApproval i prompt w)
          else executePrompt i prompt w)"

definition approveCommand :: "string \<Rightarrow> unit action" where
  "approveCommand i w =
     (case getInstance w i of
        None \<Rightarrow> (Inl (NoPendingCommand i), w)
      | Some inst \<Rightarrow>
          (case pendingCommand inst of
             None \<Rightarrow> (Inl (NoPendingCommand i), w)
           | Some pc \<Rightarrow>
               executePrompt i (command pc)
                 (updInstance i (\<lambda>x. x\<lparr>pendingCommand := None\<rparr>) w)))"

definition cancelCommand :: "string \<Rightarrow> unit action" where
  "cancelCommand i w =
     (case getInstance w i of
        None \<Rightarrow> (Inl (InstanceNotFound i), w)
      | Some inst \<Rightarrow>
          (Inr (), emitEvent i StatusChanged [(''status'', DStr ''idle'')] Info
                     (updInstance i (\<lambda>x. x\<lparr>pendingCommand := None, status := Idle\<rparr>) w)))"

section \<open>Monitoring hooks (TmuxManager)\<close>

text \<open>The interval timers are the entries of \<open>outputMonitors\<close> and \<open>logMonitors\<close>; what a
  timer does when it fires is a separate step of the model.\<close>

definition startOutputMonitoring :: "string \<Rightarrow> world \<Rightarrow> world" where
  "startOutputMonitoring i w =
     (case getInstance w i of
        None \<Rightarrow> w
      | Some inst \<Rightarrow> w\<lparr>outputMonitors := filter (\<lambda>k. k \<noteq> i) (outputMonitors w) @ [i]\<rparr>)"

definition stopOutputMonitoring :: "string \<Rightarrow> world \<Rightarrow> world" where
  "stopOutputMonitoring i w = w\<lparr>outputMonitors := filter (\<lambda>k. k \<noteq> i) (outputMonitors w)\<rparr>"

definition truthy_str :: "string option \<Rightarrow> bool" where
  "truthy_str s = (case s of None \<Rightarrow> False | Some x \<Rightarrow> x \<noteq> [])"

definition startLogMonitoring :: "string \<Rightarrow> world \<Rightarrow> world" where
  "startLogMonitoring i w =
     (case getInstance w i of
        None \<Rightarrow> w
      | Some inst \<Rightarrow>
          if \<not> truthy_str (logFile inst) then w
          else w\<lparr>logMonitors :=
                 filter (\<lambda>(k, m). k \<noteq> i) (logMonitors w) @ [(i, initialState (clock w))]\<rparr>)"

definition stopLogMonitoring :: "string \<Rightarrow> world \<Rightarrow> world" where
  "stopLogMonitoring i w = w\<lparr>logMonitors := filter (\<lambda>(k, m). k \<noteq> i) (logMonitors w)\<rparr>"

text \<open>The three listeners that \<open>startLogMonitoring\<close> registers on the monitor.\<close>

definition onAmpStarted :: "string \<Rightarrow> world \<Rightarrow> world" where
  "onAmpStarted i w =
     (case getInstance w i of
        None \<Rightarrow> w
      | Some inst \<Rightarrow>
          if status inst \<noteq> Running
          then emitEvent i StatusChanged [(''status'', DStr ''running'')] Info
                 (updInstance i (\<lambda>x. x\<lparr>status := Running\<rparr>) w)
          else w)"

definition onAmpIdle :: "string \<Rightarrow> world \<Rightarrow> world" where
  "onAmpIdle i w =
     (case getInstance w i of
        None \<Rightarrow> w
      | Some inst \<Rightarrow>
          if status inst \<noteq> Idle
          then emitEvent i StatusChanged [(''status'', DStr ''idle'')] Info
                 (updInstance i (\<lambda>x. x\<lparr>status := Idle, currentPrompt := None\<rparr>) w)
          else w)"

definition onStateChanged :: "string \<Rightarrow> AmpState \<Rightarrow> world \<Rightarrow> world" where
  "onStateChanged i newState w =
     (case getInstance w i of
        None \<Rightarrow> w
      | Some inst \<Rightarrow>
          (let w1 = updInstance i (\<lambda>x. x\<lparr>lastActivity := clock w\<rparr>) w;
               newStatus = (if isRunning (clock w) newState then Running else Idle)
           in if status inst \<noteq> newStatus
              then emitEvent i StatusChanged
                     [(''status'', DStr (status_str newStatus)), (''ampState'', DState newState)] Info
                     (updInstance i (\<lambda>x. if newStatus = Idle
                                           then x\<lparr>status := newStatus, currentPrompt := None\<rparr>
                                           else x\<lparr>status := newStatus\<rparr>) w1)
              else w1))"

definition deliver :: "string \<Rightarrow> monitor_event \<Rightarrow> world \<Rightarrow> world" where
  "deliver i ev w =
     (case ev of
        StateChanged oldState newState entry \<Rightarrow> onStateChanged i newState w
      | AmpStarted \<Rightarrow> onAmpStarted i w
      | AmpIdle \<Rightarrow> onAmpIdle i w)"

text \<open>One firing of the monitor's poll timer with \<open>content\<close> appended to the log since
  the last one, and the re-scan that \<open>refreshState\<close> does of the whole file.\<close>

definition logMonitorPoll :: "jsrt \<Rightarrow> string \<Rightarrow> string \<Rightarrow> world \<Rightarrow> world" where
  "logMonitorPoll rt i content w =
     (case map_of (logMonitors w) i of
        None \<Rightarrow> w
      | Some st \<Rightarrow>
          (case parseLogContent rt (clock w) content st of
             (st', evs) \<Rightarrow>
               fold (deliver i) evs
                 (w\<lparr>logMonitors := map (\<lambda>(k, m). if k = i then (k, st') else (k, m))
                                       (logMonitors w)\<rparr>)))"

definition logMonitorRefresh :: "jsrt \<Rightarrow> string \<Rightarrow> string \<Rightarrow> world \<Rightarrow> world" where
  "logMonitorRefresh rt i content w =
     (case map_of (logMonitors w) i of
        None \<Rightarrow> w
      | Some st \<Rightarrow>
          (case refreshState rt (clock w) content of
             (st', evs) \<Rightarrow>
               fold (deliver i) evs
                 (w\<lparr>logMonitors := map (\<lambda>(k, m). if k = i then (k, st') else (k, m))
                                       (logMonitors w)\<rparr>)))"

text \<open>\<open>getInstanceOutput\<close> captures the pane; a failed capture is logged and gives no
  lines.\<close>

definition getInstanceOutput :: "string \<Rightarrow> string list action" where
  "getInstanceOutput i w =
     (case getInstance w i of
        None \<Rightarrow> (Inl (InstanceNotFound i), w)
      | Some inst \<Rightarrow>
          (case runTmuxCommand [''capture-pane'', ''-t'', target w inst, ''-S'', ''-50'', ''-p''] w of
             (Inl e, w') \<Rightarrow> (Inr [], w')
           | (Inr out, w') \<Rightarrow>
               (Inr (filter (\<lambda>line. \<not> blank line) (split_on CHR 0x0A out)), w')))"

text \<open>One firing of the output timer that \<open>startOutputMonitoring\<close> sets.\<close>

definition outputMonitorTick :: "string \<Rightarrow> world \<Rightarrow> world" where
  "outputMonitorTick i w =
     (if i \<notin> set (outputMonitors w) then w
      else
        (case getInstanceOutput i w of
           (Inl e, w') \<Rightarrow> stopOutputMonitoring i w'
         | (Inr currentOutput, w') \<Rightarrow>
             (case getInstance w' i of
                None \<Rightarrow> w'
              | Some existingInstance \<Rightarrow>
                  if length currentOutput > length (outputLines existingInstance)
                  then updInstance i (\<lambda>x. x\<lparr>outputLines := currentOutput,
                                             lastActivity := clock w'\<rparr>) w'
                  else w')))"

text \<open>\<open>updateAuthStatusFromOutput\<close>, run by the timer that \<open>checkAuthStatus\<close> sets.\<close>

definition setAuth :: "string \<Rightarrow> auth_status \<Rightarrow> status \<Rightarrow> string \<Rightarrow> severity \<Rightarrow> world \<Rightarrow> world" where
  "setAuth i a st label sev w =
     emitEvent i AuthStatusChanged [(''status'', DStr label)] sev
       (updInstance i (\<lambda>x. x\<lparr>authStatus := a, status := st\<rparr>) w)"

definition updateAuthStatusFromOutput :: "string \<Rightarrow> world \<Rightarrow> world" where
  "updateAuthStatusFromOutput i w =
     (case getInstance w i of
        None \<Rightarrow> w
      | Some inst \<Rightarrow>
          (case getInstanceOutput i w of
             (Inl e, w') \<Rightarrow>
               updInstance i (\<lambda>x. x\<lparr>authStatus := Authenticated, status := Idle\<rparr>) w'
           | (Inr out, w') \<Rightarrow>
               (let recentOutput = toLowerCase (join_with '' '' (slice_last 10 out))
                in if includes_str recentOutput ''authentication failed'' \<or>
                      includes_str recentOutput ''not authenticated'' \<or>
                      includes_str recentOutput ''please authenticate''
                   then setAuth i Failed Error ''failed'' Err w'
                   else if includes_str recentOutput ''out of free credits'' \<or>
                           includes_str recentOutput ''insufficient credits''
                   then setAuth i Failed Error ''out_of_credits'' Err w'
                   else if includes_str recentOutput ''amp can help'' \<or>
                           includes_str recentOutput ''help for command'' \<or>
                           includes_str recentOutput ''type'' \<or>
                           includes_str recentOutput ''available commands'' \<or>
                           list_ex (\<lambda>line. includes_str line ''>'') out
                   then setAuth i Authenticated Idle ''authenticated'' Info w'
                   else setAuth i Authenticated Idle ''authenticated'' Info w')))"

section \<open>Starting and restarting a session (TmuxManager)\<close>

definition log_level_str :: "log_level \<Rightarrow> string" where
  "log_level_str l =
     (case l of LDebug \<Rightarrow> ''debug'' | LInfo \<Rightarrow> ''info'' | LWarn \<Rightarrow> ''warn''
      | LError \<Rightarrow> ''error'')"

text \<open>\<open>path.join\<close> of a directory and a file name, for paths without \<open>.\<close> and \<open>..\<close>
  segments or doubled separators, which \<open>path.join\<close> would normalise.\<close>

definition join_path :: "string \<Rightarrow> string \<Rightarrow> string" where
  "join_path dir file = dir @ ''/'' @ file"

definition envVars :: "world \<Rightarrow> AmpInstance \<Rightarrow> string list" where
  "envVars w inst =
     (if truthy_str (logFile inst)
      then [''export AMP_LOG_FILE=\"'' @ the (logFile inst) @ ''\"''] else []) @
     [''export AMP_LOG_LEVEL=\"'' @
        (case logLevel (config inst) of None \<Rightarrow> ''debug'' | Some l \<Rightarrow> log_level_str l) @ ''\"'',
      ''export AMP_SETTINGS_FILE=\"'' @
        join_path (settingsDir w) (name inst @ ''-settings.json'') @ ''\"''] @
     (case environment (config inst) of
        None \<Rightarrow> []
      | Some kvs \<Rightarrow> map (\<lambda>(k, v). ''export '' @ k @ ''=\"'' @ v @ ''\"'') kvs)"

definition setupInstanceEnvironment :: "AmpInstance \<Rightarrow> unit action" where
  "setupInstanceEnvironment inst w =
     steps
       (map (\<lambda>envVar. tmux [''send-keys'', ''-t'', target w inst, envVar, ''Enter''])
            (envVars w inst) @
        [if ampSettings inst \<noteq> None
         then fsCall (join_path (settingsDir w) (name inst @ ''-settings.json''))
         else ok (\<lambda>w. w),
         ok (sleep 200)]) w"

definition buildAmpCommand :: "AmpInstance \<Rightarrow> string" where
  "buildAmpCommand inst =
     ''amp'' @
     (if truthy_str (threadId inst) then '' --thread-id '' @ the (threadId inst) else []) @
     (case logLevel (config inst) of
        None \<Rightarrow> []
      | Some l \<Rightarrow> '' --log-level '' @ log_level_str l) @
     (if truthy_str (logFile inst) then '' --log-file '' @ the (logFile inst) else []) @
     (if (case ampSettings inst of None \<Rightarrow> None | Some s \<Rightarrow> notifications_enabled s)
           = Some False
      then '' --no-notifications'' else [])"

definition startAmpCLI :: "AmpInstance \<Rightarrow> unit action" where
  "startAmpCLI inst w =
     steps [tmux [''send-keys'', ''-t'', target w inst, buildAmpCommand inst, ''Enter''],
            ok (sleep 1000)] w"

text \<open>\<open>restartInstance\<close>. The assignments that reset the instance come after the two
  key strokes that interrupt the process and clear the terminal; a key stroke that fails
  rejects the whole call there.\<close>

definition resetInstance :: "string \<Rightarrow> world \<Rightarrow> world" where
  "resetInstance i w =
     updInstance i (\<lambda>x. x\<lparr>status := Idle, lastActivity := clock w,
        lastInactivityCheck := clock w, currentPrompt := None, pendingCommand := None,
        outputLines := [],
        stats := (stats x)\<lparr>restartCount := Suc (restartCount (stats x)),
                            lastRestart := Some (clock w)\<rparr>\<rparr>) w"

definition withInstance :: "string \<Rightarrow> (AmpInstance \<Rightarrow> unit action) \<Rightarrow> unit action" where
  "withInstance i f w = (case getInstance w i of None \<Rightarrow> (Inr (), w) | Some inst \<Rightarrow> f inst w)"

definition restartInstance :: "string \<Rightarrow> string option \<Rightarrow> unit action" where
  "restartInstance i reason w =
     (case getInstance w i of
        None \<Rightarrow> (Inl (InstanceNotFound i), w)
      | Some inst \<Rightarrow>
          steps
            [ok (emitEvent i RestartTriggered
                   [(''reason'', case reason of None \<Rightarrow> DUndefined | Some r \<Rightarrow> DStr r)] Warn),
             ok (stopOutputMonitoring i),
             ok (stopLogMonitoring i),
             tmux [''send-keys'', ''-t'', target w inst, ''C-c''],
             ok (sleep 500),
             tmux [''send-keys'', ''-t'', target w inst, ''clear'', ''Enter''],
             ok (resetInstance i),
             withInstance i setupInstanceEnvironment,
             withInstance i startAmpCLI,
             ok (startOutputMonitoring i),
             ok (startLogMonitoring i),
             withInstance i (\<lambda>x. ok (emitEvent i StatusChanged
                   [(''status'', DStr ''idle''),
                    (''restartCount'', DNum (int (restartCount (stats x))))] Info))]
            w)"

section \<open>The watchdog (TmuxManager)\<close>

definition autoRestartEnabled :: "string \<Rightarrow> world \<Rightarrow> bool" where
  "autoRestartEnabled i w =
     (case getInstance w i of
        None \<Rightarrow> False
      | Some inst \<Rightarrow> autoRestart (config inst) \<noteq> Some False)"

text \<open>The loop of \<open>checkForErrorPatterns\<close> over the patterns, with its \<open>break\<close> after the
  restart.\<close>

fun scanPatterns :: "string \<Rightarrow> string \<Rightarrow> string list \<Rightarrow> unit action" where
  "scanPatterns i recentOutput [] w = (Inr (), w)"
| "scanPatterns i recentOutput (pattern # ps) w =
     (if includes_str recentOutput pattern
      then (let w1 = emitEvent i ErrorDetected
                       [(''pattern'', DStr pattern), (''output'', DStr (take 200 recentOutput))]
                       Err w
            in if autoRestartEnabled i w1
               then restartInstance i (Some (''Error pattern detected: '' @ pattern)) w1
               else scanPatterns i recentOutput ps w1)
      else scanPatterns i recentOutput ps w)"

definition checkForErrorPatterns :: "string \<Rightarrow> unit action" where
  "checkForErrorPatterns i w =
     (case getInstance w i of
        None \<Rightarrow> (Inr (), w)
      | Some inst \<Rightarrow>
          if outputLines inst = [] then (Inr (), w)
          else scanPatterns i (join_with '' '' (slice_last 10 (outputLines inst)))
                 (errorPatterns inst) w)"

text \<open>
  The body of the loop of \<open>checkInstanceHealth\<close> for one instance, with \<open>now\<close> taken once
  at the start of the sweep. Times are in milliseconds, so \<open>lastCheckSeconds > 60\<close> is
  \<open>now - lastInactivityCheck > 60000\<close>; the threshold is a whole number of seconds.
  Whatever the body throws is caught and logged.
\<close>

definition inactivityCheck :: "int \<Rightarrow> string \<Rightarrow> unit action" where
  "inactivityCheck now i w =
     (case getInstance w i of
        None \<Rightarrow> (Inr (), w)
      | Some inst \<Rightarrow>
          (let inactivity = now - lastActivity inst;
               lastCheck = now - lastInactivityCheck inst
           in if lastCheck > 60000 \<and> inactivity > inactivityThreshold inst * 1000
              then steps
                     [ok (updInstance i (\<lambda>x. x\<lparr>lastInactivityCheck := now\<rparr>)),
                      ok (emitEvent i InactivityDetected
                            [(''inactivitySeconds'', DSeconds inactivity),
                             (''threshold'', DNum (inactivityThreshold inst))] Warn),
                      (\<lambda>w'. if autoRestartEnabled i w'
                             then restartInstance i
                                    (Some (''Inactivity detected: '' @
                                           render_int (inactivity div 1000) @ ''s'')) w'
                             else (Inr (), w'))] w
              else (Inr (), w)))"

definition healthCheckOne :: "int \<Rightarrow> string \<Rightarrow> world \<Rightarrow> world" where
  "healthCheckOne now i w = snd (steps [inactivityCheck now i, checkForErrorPatterns i] w)"

definition checkInstanceHealth :: "world \<Rightarrow> world" where
  "checkInstanceHealth w = fold (healthCheckOne (clock w)) (map fst (instances w)) w"

section \<open>Creating and removing instances (TmuxManager)\<close>

definition defaultErrorPatterns :: "string list" where
  "defaultErrorPatterns =
     [''prompt is too long'', ''after property name in JSON at'', ''exceed context limit:'',
      ''Shutting down...'', ''Error:'', ''ERROR:'', ''Fatal:'', ''FATAL:'', ''timeout'',
      ''connection refused'', ''authentication failed'', ''Out of free credits'',
      ''Amp update failed'', ''update failed'', ''network error'', ''connection timeout'']"

text \<open>The object spread \<open>{...a, ...b}\<close> of two settings objects: a key of \<open>b\<close> wins. The
  record does not tell a key that is missing from one that is present with the value
  \<open>undefined\<close> or \<open>null\<close> (both are \<open>None\<close>), so this is the spread for settings whose keys,
  when present, hold a value.\<close>

definition orElse :: "'a option \<Rightarrow> 'a option \<Rightarrow> 'a option" where
  "orElse b a = (case b of None \<Rightarrow> a | Some v \<Rightarrow> Some v)"

definition mergeSettings :: "AmpSettings \<Rightarrow> AmpSettings option \<Rightarrow> AmpSettings" where
  "mergeSettings a bo =
     (case bo of
        None \<Rightarrow> a
      | Some b \<Rightarrow>
          \<lparr>notifications_enabled = orElse (notifications_enabled b) (notifications_enabled a),
           mcpServers = orElse (mcpServers b) (mcpServers a),
           mcp_disable = orElse (mcp_disable b) (mcp_disable a),
           tools_disable = orElse (tools_disable b) (tools_disable a),
           commands_allowlist = orElse (commands_allowlist b) (commands_allowlist a)\<rparr>)"

definition emptyConfig :: InstanceConfig where
  "emptyConfig =
     \<lparr>cfg_name = None, cfg_workingDirectory = None, initialPrompt = None, environment = None,
      autoRestart = None, cfg_inactivityThreshold = None, requireApproval = None,
      cfg_errorPatterns = None, logLevel = None, cfg_threadId = None, cfg_ampSettings = None,
      commandAllowlist = None\<rparr>"

text \<open>\<open>checkAuthStatus\<close> works on the instance object before it is registered; its
  \<open>try\<close>/\<open>catch\<close> turns a failed probe into \<open>authStatus = 'failed'\<close>.\<close>

definition checkAuthStatus :: "AmpInstance \<Rightarrow> world \<Rightarrow> AmpInstance \<times> world" where
  "checkAuthStatus inst w =
     (let inst1 = inst\<lparr>status := Authenticating\<rparr>;
          w1 = sleep 2000 (emitEvent (instId inst) AuthStatusChanged
                             [(''status'', DStr ''checking'')] Info w)
      in case tmux [''send-keys'', ''-t'', target w inst, ''help'', ''Enter''] w1 of
           (Inr u, w2) \<Rightarrow> (inst1, w2)
         | (Inl e, w2) \<Rightarrow>
             (inst1\<lparr>authStatus := Failed\<rparr>,
              emitEvent (instId inst) AuthStatusChanged [(''status'', DStr ''failed'')] Err w2))"

definition newInstance :: "string \<Rightarrow> InstanceConfig option \<Rightarrow> world \<Rightarrow> AmpInstance" where
  "newInstance uuid cfg w =
     (let c = (case cfg of None \<Rightarrow> emptyConfig | Some c \<Rightarrow> c);
          nm = (if truthy_str (cfg_name c) then the (cfg_name c) else ''amp-'' @ take 8 uuid);
          workingDir = (if truthy_str (cfg_workingDirectory c)
                        then the (cfg_workingDirectory c) else cwd w)
      in \<lparr>instId = uuid, name = nm, tmuxPane = sessionName w @ '':'' @ nm, status = Idle,
          createdAt = clock w, lastActivity = clock w, lastInactivityCheck = clock w,
          workingDirectory = Some workingDir,
          logFile = Some (join_path ''/tmp/amp-manager'' (nm @ ''.log'')),
          outputLines = [], currentPrompt = None, threadId = cfg_threadId c,
          authStatus = Unknown, pendingCommand = None,
          stats = \<lparr>promptsExecuted = 0, tokensUsed = 0, uptime = 0, restartCount = 0,
                   lastRestart = None\<rparr>,
          config = c,
          errorPatterns = (case cfg_errorPatterns c of
                             None \<Rightarrow> defaultErrorPatterns | Some ps \<Rightarrow> ps),
          inactivityThreshold = (case cfg_inactivityThreshold c of
                                   None \<Rightarrow> 120
                                 | Some t \<Rightarrow> if t = 0 then 120 else t),
          ampSettings = Some (mergeSettings (globalAmpSettings w) (cfg_ampSettings c))\<rparr>)"

definition createInstance :: "string \<Rightarrow> InstanceConfig option \<Rightarrow> AmpInstance action" where
  "createInstance uuid cfg w =
     (if \<not> sessionExists w then (Inl SessionNotInitialized, w)
      else
        (case fsCall ''/tmp/amp-manager'' w of
           (Inl e, w1) \<Rightarrow> (Inl e, w1)
         | (Inr u, w1) \<Rightarrow>
        (let pre = newInstance uuid cfg w1 in
         case tmux [''new-window'', ''-t'', sessionName w1, ''-n'', name pre, ''-c'',
                    the (workingDirectory pre)] w1 of
           (Inl e, w2) \<Rightarrow> (Inl e, w2)
         | (Inr u, w2) \<Rightarrow>
        (let inst = newInstance uuid cfg w2 in
         case steps [setupInstanceEnvironment inst, startAmpCLI inst] w2 of
           (Inl e, w3) \<Rightarrow> (Inl e, w3)
         | (Inr u, w3) \<Rightarrow>
        (case checkAuthStatus inst w3 of
           (inst', w4) \<Rightarrow>
        (case (if truthy_str (initialPrompt (config inst'))
               then sendPrompt uuid (the (initialPrompt (config inst'))) w4
               else (Inr (), w4)) of
           (Inl e, w5) \<Rightarrow> (Inl e, w5)
         | (Inr u, w5) \<Rightarrow>
             (Inr inst',
              emitEvent uuid StatusChanged
                [(''status'', DStr ''idle''), (''name'', DStr (name inst'))] Info
                (startLogMonitoring uuid (startOutputMonitoring uuid
                   (mapSet uuid inst' w5))))))))))"

definition removeInstance :: "string \<Rightarrow> unit action" where
  "removeInstance i w =
     (case getInstance w i of
        None \<Rightarrow> (Inl (InstanceNotFound i), w)
      | Some inst \<Rightarrow>
          (let w1 = stopLogMonitoring i (stopOutputMonitoring i
                      (emitEvent i StatusChanged [(''status'', DStr ''stopped'')] Info w));
               w2 = snd (tmux [''kill-window'', ''-t'', target w inst] w1)
           in (Inr (), mapDelete i w2)))"

section \<open>Runs of the supervisor\<close>

text \<open>
  Everything that can happen to the supervisor, one step at a time: a request from the
  control socket, a timer firing, time passing, and the environment deciding how the next
  external calls will go. A request's outcome is returned to the caller; the run keeps the
  state.
\<close>

datatype op =
  CreateInstance string "InstanceConfig option"
| SendPrompt string string
| ApproveCommand string
| CancelCommand string
| RestartInstance string "string option"
| RemoveInstance string
| WatchdogSweep
| OutputTick string
| AuthTimer string
| LogPoll string string
| LogRefresh string string
| Elapse nat
| Script "io_outcome list"

fun exec :: "jsrt \<Rightarrow> op \<Rightarrow> world \<Rightarrow> world" where
  "exec rt (CreateInstance uuid cfg) w = snd (createInstance uuid cfg w)"
| "exec rt (SendPrompt i prompt) w = snd (sendPrompt i prompt w)"
| "exec rt (ApproveCommand i) w = snd (approveCommand i w)"
| "exec rt (CancelCommand i) w = snd (cancelCommand i w)"
| "exec rt (RestartInstance i reason) w = snd (restartInstance i reason w)"
| "exec rt (RemoveInstance i) w = snd (removeInstance i w)"
| "exec rt WatchdogSweep w = checkInstanceHealth w"
| "exec rt (OutputTick i) w = outputMonitorTick i w"
| "exec rt (AuthTimer i) w = updateAuthStatusFromOutput i w"
| "exec rt (LogPoll i content) w = logMonitorPoll rt i content w"
| "exec rt (LogRefresh i content) w = logMonitorRefresh rt i content w"
| "exec rt (Elapse ms) w = sleep ms w"
| "exec rt (Script outcomes) w = w\<lparr>io := outcomes\<rparr>"

definition run :: "jsrt \<Rightarrow> op list \<Rightarrow> world \<Rightarrow> world" where
  "run rt ops w = fold (exec rt) ops w"

section \<open>Objects and references (listInstances, toggle\_auto\_restart)\<close>

text \<open>
  The model above keeps each instance as a value. What \<open>listInstances\<close> returns, and what
  writing to it does, depends on which JavaScript objects are shared, so here the objects
  live in a store: an instance object holds its array, statistics, configuration and
  settings objects by reference, and the registry maps an id to the address of its
  instance object. Strings, numbers and dates are values; the contents of a configuration
  or settings object are kept inside its cell.
\<close>

type_synonym ref = nat

record InstanceObject =
  o_instId :: string
  o_name :: string
  o_tmuxPane :: string
  o_status :: status
  o_createdAt :: int
  o_lastActivity :: int
  o_lastInactivityCheck :: int
  o_workingDirectory :: "string option"
  o_logFile :: "string option"
  o_output :: ref
  o_currentPrompt :: "string option"
  o_threadId :: "string option"
  o_authStatus :: auth_status
  o_pendingCommand :: "ref option"
  o_stats :: ref
  o_config :: ref
  o_errorPatterns :: ref
  o_inactivityThreshold :: int
  o_ampSettings :: "ref option"

datatype cell =
  InstanceCell InstanceObject
| ConfigCell InstanceConfig
| ArrayCell "string list"
| StatsCell Stats
| PendingCell PendingCommand
| SettingsCell AmpSettings

record store =
  cells :: "cell list"
  registry :: "(string \<times> ref) list"

definition readCell :: "store \<Rightarrow> ref \<Rightarrow> cell option" where
  "readCell s r = (if r < length (cells s) then Some (cells s ! r) else None)"

text \<open>A new object gets the next free address; a write replaces the object at an address
  that is in use.\<close>

definition alloc :: "cell \<Rightarrow> store \<Rightarrow> ref \<times> store" where
  "alloc c s = (length (cells s), s\<lparr>cells := cells s @ [c]\<rparr>)"

definition writeCell :: "ref \<Rightarrow> cell \<Rightarrow> store \<Rightarrow> store" where
  "writeCell r c s = (if r < length (cells s) then s\<lparr>cells := (cells s)[r := c]\<rparr> else s)"

text \<open>Typed reads; \<open>None\<close> when the address does not hold an object of that kind.\<close>

definition readInstance :: "store \<Rightarrow> ref \<Rightarrow> InstanceObject option" where
  "readInstance s r = (case readCell s r of Some (InstanceCell obj) \<Rightarrow> Some obj | _ \<Rightarrow> None)"

definition readConfig :: "store \<Rightarrow> ref \<Rightarrow> InstanceConfig option" where
  "readConfig s r = (case readCell s r of Some (ConfigCell c) \<Rightarrow> Some c | _ \<Rightarrow> None)"

definition readArray :: "store \<Rightarrow> ref \<Rightarrow> string list option" where
  "readArray s r = (case readCell s r of Some (ArrayCell xs) \<Rightarrow> Some xs | _ \<Rightarrow> None)"

definition readStats :: "store \<Rightarrow> ref \<Rightarrow> Stats option" where
  "readStats s r = (case readCell s r of Some (StatsCell st) \<Rightarrow> Some st | _ \<Rightarrow> None)"

definition readPending :: "store \<Rightarrow> ref option \<Rightarrow> PendingCommand option option" where
  "readPending s ro =
     (case ro of
        None \<Rightarrow> Some None
      | Some r \<Rightarrow> (case readCell s r of Some (PendingCell p) \<Rightarrow> Some (Some p) | _ \<Rightarrow> None))"

definition readSettings :: "store \<Rightarrow> ref option \<Rightarrow> AmpSettings option option" where
  "readSettings s ro =
     (case ro of
        None \<Rightarrow> Some None
      | Some r \<Rightarrow> (case readCell s r of Some (SettingsCell a) \<Rightarrow> Some (Some a) | _ \<Rightarrow> None))"

text \<open>What an instance object and everything it refers to hold: the instance as a value.\<close>

definition load :: "store \<Rightarrow> ref \<Rightarrow> AmpInstance option" where
  "load s r =
     Option.bind (readInstance s r) (\<lambda>obj.
     Option.bind (readArray s (o_output obj)) (\<lambda>out.
     Option.bind (readPending s (o_pendingCommand obj)) (\<lambda>pc.
     Option.bind (readStats s (o_stats obj)) (\<lambda>st.
     Option.bind (readConfig s (o_config obj)) (\<lambda>cfg.
     Option.bind (readArray s (o_errorPatterns obj)) (\<lambda>pats.
     Option.bind (readSettings s (o_ampSettings obj)) (\<lambda>settings.
       Some \<lparr>instId = o_instId obj, name = o_name obj, tmuxPane = o_tmuxPane obj,
             status = o_status obj, createdAt = o_createdAt obj,
             lastActivity = o_lastActivity obj,
             lastInactivityCheck = o_lastInactivityCheck obj,
             workingDirectory = o_workingDirectory obj, logFile = o_logFile obj,
             outputLines = out, currentPrompt = o_currentPrompt obj,
             threadId = o_threadId obj, authStatus = o_authStatus obj,
             pendingCommand = pc, stats = st, config = cfg, errorPatterns = pats,
             inactivityThreshold = o_inactivityThreshold obj,
             ampSettings = settings\<rparr>)))))))"

text \<open>
  The callback that \<open>listInstances\<close> maps over the registered instances. The spread
  \<open>...instance\<close> copies the fields of the instance object, references included, into a new
  object; \<open>stats\<close> and (when there is one) \<open>pendingCommand\<close> are replaced by new objects with
  the same contents. The result is \<open>None\<close> only in a store that is not well typed.
\<close>

definition snapshotOne :: "ref \<Rightarrow> store \<Rightarrow> (ref \<times> store) option" where
  "snapshotOne r s =
     Option.bind (readInstance s r) (\<lambda>obj.
     Option.bind (readStats s (o_stats obj)) (\<lambda>st.
     Option.bind (readPending s (o_pendingCommand obj)) (\<lambda>pc.
       (case alloc (StatsCell st) s of
          (statsRef, s1) \<Rightarrow>
            (case pc of
               None \<Rightarrow> Some (alloc (InstanceCell (obj\<lparr>o_stats := statsRef\<rparr>)) s1)
             | Some p \<Rightarrow>
                 (case alloc (PendingCell p) s1 of
                    (pendingRef, s2) \<Rightarrow>
                      Some (alloc (InstanceCell (obj\<lparr>o_stats := statsRef,
                                     o_pendingCommand := Some pendingRef\<rparr>)) s2)))))))"

fun snapshotAll :: "ref list \<Rightarrow> store \<Rightarrow> (ref list \<times> store) option" where
  "snapshotAll [] s = Some ([], s)"
| "snapshotAll (r # rs) s =
     (case snapshotOne r s of
        None \<Rightarrow> None
      | Some (r', s') \<Rightarrow>
          (case snapshotAll rs s' of
             None \<Rightarrow> None
           | Some (rs', s'') \<Rightarrow> Some (r' # rs', s'')))"

definition listInstances :: "store \<Rightarrow> (ref list \<times> store) option" where
  "listInstances s = snapshotAll (map snd (registry s)) s"

text \<open>
  The \<open>toggle_auto_restart\<close> case of \<open>ControlSocket.handleMessage\<close>: it looks the instance
  up in the list that \<open>listInstances\<close> returns and assigns to \<open>config.autoRestart\<close> of what
  it finds. The result is the new value of the flag, or \<open>None\<close> for `Instance not found'.
\<close>

definition hasId :: "store \<Rightarrow> string \<Rightarrow> ref \<Rightarrow> bool" where
  "hasId s i r = (case readInstance s r of None \<Rightarrow> False | Some obj \<Rightarrow> o_instId obj = i)"

definition toggleAutoRestart :: "string \<Rightarrow> store \<Rightarrow> (bool option \<times> store) option" where
  "toggleAutoRestart i s =
     Option.bind (listInstances s) (\<lambda>(rs, s1).
       (case find (hasId s1 i) rs of
          None \<Rightarrow> Some (None, s1)
        | Some r \<Rightarrow>
            Option.bind (readInstance s1 r) (\<lambda>targetInstance.
            Option.bind (readConfig s1 (o_config targetInstance)) (\<lambda>c.
              (let flag = (autoRestart c \<noteq> Some True)
               in Some (Some flag,
                        writeCell (o_config targetInstance)
                          (ConfigCell (c\<lparr>autoRestart := Some flag\<rparr>)) s1))))))"

text \<open>Putting an instance into the store as \<open>createInstance\<close> builds it from a
  configuration without \<open>errorPatterns\<close>: one object for each nested value, then the
  instance object, then the registry entry. (When the configuration supplies
  \<open>errorPatterns\<close>, the instance and its configuration hold one and the same array.)\<close>

definition storeInstance :: "AmpInstance \<Rightarrow> store \<Rightarrow> store" where
  "storeInstance inst s =
     (case alloc (ArrayCell (outputLines inst)) s of (outRef, s1) \<Rightarrow>
      case alloc (StatsCell (stats inst)) s1 of (statsRef, s2) \<Rightarrow>
      case alloc (ConfigCell (config inst)) s2 of (configRef, s3) \<Rightarrow>
      case alloc (ArrayCell (errorPatterns inst)) s3 of (patsRef, s4) \<Rightarrow>
      case (case ampSettings inst of
              None \<Rightarrow> (None, s4)
            | Some a \<Rightarrow> (case alloc (SettingsCell a) s4 of (r, s') \<Rightarrow> (Some r, s'))) of
        (settingsRef, s5) \<Rightarrow>
      case (case pendingCommand inst of
              None \<Rightarrow> (None, s5)
            | Some p \<Rightarrow> (case alloc (PendingCell p) s5 of (r, s') \<Rightarrow> (Some r, s'))) of
        (pendingRef, s6) \<Rightarrow>
      case alloc (InstanceCell
             \<lparr>o_instId = instId inst, o_name = name inst, o_tmuxPane = tmuxPane inst,
              o_status = status inst, o_createdAt = createdAt inst,
              o_lastActivity = lastActivity inst,
              o_lastInactivityCheck = lastInactivityCheck inst,
              o_workingDirectory = workingDirectory inst, o_logFile = logFile inst,
              o_output = outRef, o_currentPrompt = currentPrompt inst,
              o_threadId = threadId inst, o_authStatus = authStatus inst,
              o_pendingCommand = pendingRef, o_stats = statsRef, o_config = configRef,
              o_errorPatterns = patsRef, o_inactivityThreshold = inactivityThreshold inst,
              o_ampSettings = settingsRef\<rparr>) s6 of
        (r, s7) \<Rightarrow> s7\<lparr>registry := registry s7 @ [(instId inst, r)]\<rparr>)"

definition emptyStore :: store where
  "emptyStore = \<lparr>cells = [], registry = []\<rparr>"

text \<open>A store is well formed when every registered instance can be read in full.\<close>

definition wellFormed :: "store \<Rightarrow> bool" where
  "wellFormed s = list_all (\<lambda>(k, r). load s r \<noteq> None) (registry s)"

text \<open>Two stores agree on the addresses that the first has in use.\<close>

definition agreeOn :: "store \<Rightarrow> store \<Rightarrow> bool" where
  "agreeOn s s' =
     (length (cells s) \<le> length (cells s') \<and> take (length (cells s)) (cells s') = cells s)"

text \<open>A record of a listing is fresh from address \<open>n\<close> on when the record itself, its
  statistics object and its pending command object (if any) were all created at address
  \<open>n\<close> or later.\<close>

definition freshRecord :: "nat \<Rightarrow> store \<Rightarrow> ref \<Rightarrow> bool" where
  "freshRecord n s r =
     (n \<le> r \<and>
      (case readInstance s r of
         None \<Rightarrow> False
       | Some obj \<Rightarrow>
           n \<le> o_stats obj \<and>
           (case o_pendingCommand obj of None \<Rightarrow> True | Some rp \<Rightarrow> n \<le> rp)))"

text \<open>Two instance objects share their nested objects when both hold the same
  configuration object, output array, pattern array and settings object.\<close>

definition sharesNested :: "store \<Rightarrow> ref \<Rightarrow> ref \<Rightarrow> bool" where
  "sharesNested s r' r =
     (case (readInstance s r', readInstance s r) of
        (Some obj', Some obj) \<Rightarrow>
           o_config obj' = o_config obj \<and> o_output obj' = o_output obj \<and>
           o_errorPatterns obj' = o_errorPatterns obj \<and> o_ampSettings obj' = o_ampSettings obj
      | _ \<Rightarrow> False)"

text \<open>An instance object is untouched between two stores when it reads, in full, as the
  same instance in both.\<close>

definition untouched :: "store \<Rightarrow> store \<Rightarrow> ref \<Rightarrow> bool" where
  "untouched s s' r = (load s' r = load s r)"

text \<open>The instance that the registry holds under an id, read in full.\<close>

definition registered :: "store \<Rightarrow> string \<Rightarrow> AmpInstance option" where
  "registered s i = Option.bind (map_of (registry s) i) (load s)"


section \<open>Notions used in the statements and proofs\<close>

text \<open>Whether the next external call succeeds, and the state once it has been made.\<close>

definition next_ok :: "world \<Rightarrow> bool" where
  "next_ok w = (case io w of [] \<Rightarrow> True | r # rest \<Rightarrow> io_ok r)"

definition popped :: "world \<Rightarrow> world" where
  "popped w =
     (case io w of
        [] \<Rightarrow> w
      | r # rest \<Rightarrow> w\<lparr>io := rest, clock := clock w + int (io_elapsed r)\<rparr>)"

text \<open>An action relates the state it starts in to the state it leaves.\<close>

definition maintains :: "(world \<Rightarrow> world \<Rightarrow> bool) \<Rightarrow> 'a action \<Rightarrow> bool" where
  "maintains R m = (\<forall>w. R w (snd (m w)))"

definition sameInstances :: "world \<Rightarrow> world \<Rightarrow> bool" where
  "sameInstances w w' = (instances w' = instances w)"

text \<open>The statements of \<open>restartInstance\<close> before and after the reset.\<close>

definition restartPrefix :: "string \<Rightarrow> string option \<Rightarrow> string \<Rightarrow> unit action list" where
  "restartPrefix i reason tgt =
     [ok (emitEvent i RestartTriggered
            [(''reason'', case reason of None \<Rightarrow> DUndefined | Some r \<Rightarrow> DStr r)] Warn),
      ok (stopOutputMonitoring i),
      ok (stopLogMonitoring i),
      tmux [''send-keys'', ''-t'', tgt, ''C-c''],
      ok (sleep 500),
      tmux [''send-keys'', ''-t'', tgt, ''clear'', ''Enter'']]"

definition restartSuffix :: "string \<Rightarrow> unit action list" where
  "restartSuffix i =
     [withInstance i setupInstanceEnvironment,
      withInstance i startAmpCLI,
      ok (startOutputMonitoring i),
      ok (startLogMonitoring i),
      withInstance i (\<lambda>x. ok (emitEvent i StatusChanged
            [(''status'', DStr ''idle''),
             (''restartCount'', DNum (int (restartCount (stats x))))] Info))]"

text \<open>An action that, when it succeeds, has made \<open>n\<close> external calls.\<close>

definition consumes :: "nat \<Rightarrow> unit action \<Rightarrow> bool" where
  "consumes n m = (\<forall>w w' u. m w = (Inr u, w') \<longrightarrow> io w' = drop n (io w))"

text \<open>
  A configuration that leaves out \<open>inactivityThreshold\<close> and \<open>errorPatterns\<close> (or no
  configuration at all). Before \<open>createInstance\<close> probes authentication it makes seven
  external calls and one more for each entry of \<open>environment\<close>; the probe is delivered
  when the call after these succeeds.
\<close>

definition omitsWatchdogSettings :: "InstanceConfig option \<Rightarrow> bool" where
  "omitsWatchdogSettings cfg =
     (case cfg of
        None \<Rightarrow> True
      | Some c \<Rightarrow> cfg_inactivityThreshold c = None \<and> cfg_errorPatterns c = None)"

definition startupCalls :: "InstanceConfig option \<Rightarrow> nat" where
  "startupCalls cfg =
     7 + (case cfg of
            None \<Rightarrow> 0
          | Some c \<Rightarrow> (case environment c of None \<Rightarrow> 0 | Some kvs \<Rightarrow> length kvs))"

definition probeDelivered :: "InstanceConfig option \<Rightarrow> world \<Rightarrow> bool" where
  "probeDelivered cfg w = list_all io_ok (take 1 (drop (startupCalls cfg) (io w)))"

text \<open>
  The events an operation adds, how many of them announce a restart, and the relation
  between two states when the later one has only added events that announce none. The
  recent output that \<open>checkForErrorPatterns\<close> scans and the event it emits for a pattern.
\<close>

definition newEvents :: "world \<Rightarrow> world \<Rightarrow> AgentEvent list" where
  "newEvents w w' = drop (length (events w)) (events w')"

definition restartsIn :: "AgentEvent list \<Rightarrow> nat" where
  "restartsIn evs = length (filter (\<lambda>e. ev_type e = RestartTriggered) evs)"

definition quiet :: "world \<Rightarrow> world \<Rightarrow> bool" where
  "quiet w w' = (\<exists>tail. events w' = events w @ tail \<and> restartsIn tail = 0)"

definition recentWindow :: "AmpInstance \<Rightarrow> string" where
  "recentWindow inst = join_with '' '' (slice_last 10 (outputLines inst))"

definition errorEvent :: "string \<Rightarrow> string \<Rightarrow> string \<Rightarrow> int \<Rightarrow> AgentEvent" where
  "errorEvent i pattern recentOutput t =
     \<lparr>instanceId = i, ev_timestamp = t, ev_type = ErrorDetected,
      ev_data = [(''pattern'', DStr pattern), (''output'', DStr (take 200 recentOutput))],
      ev_severity = Err\<rparr>"

text \<open>
  \<open>later i w w'\<close>: time has not run backwards from \<open>w\<close> to \<open>w'\<close>, and the
  \<open>lastInactivityCheck\<close> of instance \<open>i\<close> in \<open>w'\<close> is no earlier than it was in \<open>w\<close>, or no
  earlier than the clock of \<open>w\<close>. \<open>fresh L i w\<close>: the clock has reached \<open>L\<close> and, if \<open>i\<close>
  is registered, so has its \<open>lastInactivityCheck\<close>.
\<close>

definition later :: "string \<Rightarrow> world \<Rightarrow> world \<Rightarrow> bool" where
  "later i w w' =
     (clock w \<le> clock w' \<and>
      (case getInstance w' i of
         None \<Rightarrow> True
       | Some inst' \<Rightarrow>
           clock w \<le> lastInactivityCheck inst' \<or>
           (case getInstance w i of
              None \<Rightarrow> False
            | Some inst \<Rightarrow> lastInactivityCheck inst \<le> lastInactivityCheck inst')))"

definition fresh :: "int \<Rightarrow> string \<Rightarrow> world \<Rightarrow> bool" where
  "fresh L i w =
     (L \<le> clock w \<and>
      (case getInstance w i of None \<Rightarrow> True | Some inst \<Rightarrow> L \<le> lastInactivityCheck inst))"

text \<open>  A log line has a message when \<open>JSON.parse\<close> accepts it and gives an object whose
  \<open>message\<close> is a string. \<open>stampOf\<close> is the date that \<open>processLogEntry\<close> has written to
  \<open>lastActivity\<close> by the time it looks at the message: there is none for a line that
  \<open>JSON.parse\<close> rejects or that parses to \<open>null\<close>.\<close>

definition hasMessage :: "jsrt \<Rightarrow> string \<Rightarrow> bool" where
  "hasMessage rt line =
     (case JSON_parse rt line of
        None \<Rightarrow> False
      | Some entry \<Rightarrow> (case jprop entry ''message'' of Some (JStr m) \<Rightarrow> True | _ \<Rightarrow> False))"

definition stampOf :: "jsrt \<Rightarrow> string \<Rightarrow> int option option" where
  "stampOf rt line =
     (case JSON_parse rt line of
        None \<Rightarrow> None
      | Some entry \<Rightarrow>
          if entry = JNull then None else Some (Date_time rt (jprop entry ''timestamp'')))"

text \<open>  \<open>patternRestart i e\<close>: the event \<open>e\<close> announces a restart of instance \<open>i\<close> made by the
  error-pattern scan, whose reasons start with \<open>Error pattern detected:\<close>.
  \<open>adds P w w'\<close>: the later state has only added events that satisfy \<open>P\<close>.\<close>

definition patternRestart :: "string \<Rightarrow> AgentEvent \<Rightarrow> bool" where
  "patternRestart i e =
     (instanceId e = i \<and> ev_type e = RestartTriggered \<and>
      (case map_of (ev_data e) ''reason'' of
         Some (DStr r) \<Rightarrow> startsWith r ''Error pattern detected: ''
       | _ \<Rightarrow> False))"

definition patternRestarts :: "string \<Rightarrow> AgentEvent list \<Rightarrow> nat" where
  "patternRestarts i evs = length (filter (patternRestart i) evs)"

definition adds :: "(AgentEvent \<Rightarrow> bool) \<Rightarrow> world \<Rightarrow> world \<Rightarrow> bool" where
  "adds P w w' = (\<exists>tail. events w' = events w @ tail \<and> list_all P tail)"

text \<open>  \<open>untilNextVisit now i ks rt ops now' js w\<close> is the state in which a later sweep, stamped
  \<open>now'\<close>, reaches instance \<open>i\<close>: the sweep stamped \<open>now\<close> finishes its loop body for \<open>i\<close>
  in \<open>w\<close> and visits the instances \<open>ks\<close>, the supervisor runs \<open>ops\<close>, and the later sweep
  visits the instances \<open>js\<close>. Then the two events that the inactivity branch of a sweep
  stamped \<open>now\<close> emits at time \<open>t\<close>, and the time and data of the restarts announced for an
  instance.\<close>

definition untilNextVisit ::
  "int \<Rightarrow> string \<Rightarrow> string list \<Rightarrow> jsrt \<Rightarrow> op list \<Rightarrow> int \<Rightarrow> string list \<Rightarrow> world \<Rightarrow> world" where
  "untilNextVisit now i ks rt ops now' js w =
     fold (healthCheckOne now') js
       (run rt ops (fold (healthCheckOne now) ks (healthCheckOne now i w)))"

definition inactivityEvent :: "string \<Rightarrow> AmpInstance \<Rightarrow> int \<Rightarrow> int \<Rightarrow> AgentEvent" where
  "inactivityEvent i inst now t =
     \<lparr>instanceId = i, ev_timestamp = t, ev_type = InactivityDetected,
      ev_data = [(''inactivitySeconds'', DSeconds (now - lastActivity inst)),
                 (''threshold'', DNum (inactivityThreshold inst))],
      ev_severity = Warn\<rparr>"

definition inactivityRestart :: "string \<Rightarrow> AmpInstance \<Rightarrow> int \<Rightarrow> int \<Rightarrow> AgentEvent" where
  "inactivityRestart i inst now t =
     \<lparr>instanceId = i, ev_timestamp = t, ev_type = RestartTriggered,
      ev_data = [(''reason'',
                  DStr (''Inactivity detected: '' @
                        render_int ((now - lastActivity inst) div 1000) @ ''s''))],
      ev_severity = Warn\<rparr>"

definition restartsOf :: "string \<Rightarrow> AgentEvent list \<Rightarrow> (int \<times> (string \<times> dval) list) list" where
  "restartsOf i evs =
     map (\<lambda>e. (ev_timestamp e, ev_data e))
       (filter (\<lambda>e. instanceId e = i \<and> ev_type e = RestartTriggered) evs)"

section \<open>Example states\<close>

text \<open>
  The settings that \<open>loadGlobalSettings\<close> writes when there is no settings file, a
  supervisor whose session has been initialised, and the two instances that
  \<open>createInstance\<close> makes in it (see \<open>guarded_created\<close> and \<open>plain_created\<close> below): one
  that requires approval and lists \<open>git status\<close> as allowed, and one with an empty
  configuration.
\<close>

definition defaultGlobalSettings :: AmpSettings where
  "defaultGlobalSettings =
     \<lparr>notifications_enabled = Some True, mcpServers = None, mcp_disable = None,
      tools_disable = Some [],
      commands_allowlist = Some [''git status'', ''ls -la'', ''pwd'', ''cat'', ''grep'']\<rparr>"

definition world0 :: world where
  "world0 =
     \<lparr>sessionName = ''amp-manager'', settingsDir = ''/home/dev/.config/amp-manager'',
      cwd = ''/home/dev/project'', instances = [], sessionExists = True, outputMonitors = [],
      logMonitors = [], events = [], globalAmpSettings = defaultGlobalSettings,
      clock = 1700000000000, io = [], sent = []\<rparr>"

definition noStats :: Stats where
  "noStats =
     \<lparr>promptsExecuted = 0, tokensUsed = 0, uptime = 0, restartCount = 0, lastRestart = None\<rparr>"

text \<open>The supervisor 3.2 seconds later, with \<open>inst\<close> started and registered.\<close>

definition startupKeys :: "AmpInstance \<Rightarrow> string list list" where
  "startupKeys inst =
     [''new-window'', ''-t'', ''amp-manager'', ''-n'', name inst, ''-c'',
      the (workingDirectory inst)] #
     map (\<lambda>envVar. [''send-keys'', ''-t'', target world0 inst, envVar, ''Enter''])
         (envVars world0 inst) @
     [[''send-keys'', ''-t'', target world0 inst, buildAmpCommand inst, ''Enter''],
      [''send-keys'', ''-t'', target world0 inst, ''help'', ''Enter'']]"

definition createdWorld :: "AmpInstance \<Rightarrow> world" where
  "createdWorld inst =
     world0\<lparr>instances := [(instId inst, inst)], outputMonitors := [instId inst],
            logMonitors := [(instId inst, initialState 1700000003200)],
            events :=
              [\<lparr>instanceId = instId inst, ev_timestamp = 1700000001200,
                ev_type = AuthStatusChanged, ev_data = [(''status'', DStr ''checking'')],
                ev_severity = Info\<rparr>,
               \<lparr>instanceId = instId inst, ev_timestamp = 1700000003200,
                ev_type = StatusChanged,
                ev_data = [(''status'', DStr ''idle''), (''name'', DStr (name inst))],
                ev_severity = Info\<rparr>],
            clock := 1700000003200, sent := startupKeys inst\<rparr>"

definition guardedId :: string where
  "guardedId = ''3b241101-e2bb-4255-8caf-4136c566a962''"

definition guardedConfig :: InstanceConfig where
  "guardedConfig =
     emptyConfig\<lparr>cfg_name := Some ''guarded'', requireApproval := Some True,
                  commandAllowlist := Some [''git status'']\<rparr>"

definition guardedInstance :: AmpInstance where
  "guardedInstance =
     \<lparr>instId = guardedId, name = ''guarded'', tmuxPane = ''amp-manager:guarded'',
      status = Authenticating, createdAt = 1700000000000, lastActivity = 1700000000000,
      lastInactivityCheck = 1700000000000, workingDirectory = Some ''/home/dev/project'',
      logFile = Some ''/tmp/amp-manager/guarded.log'', outputLines = [], currentPrompt = None,
      threadId = None, authStatus = Unknown, pendingCommand = None, stats = noStats,
      config = guardedConfig, errorPatterns = defaultErrorPatterns, inactivityThreshold = 120,
      ampSettings = Some defaultGlobalSettings\<rparr>"

definition guardedWorld :: world where
  "guardedWorld = createdWorld guardedInstance"

definition pendingWorld :: world where
  "pendingWorld = snd (sendPrompt guardedId ''rm -rf /'' guardedWorld)"

definition plainId :: string where
  "plainId = ''9c5b94b1-35ad-49bb-b118-8e8fc24abf80''"

definition plainInstance :: AmpInstance where
  "plainInstance =
     \<lparr>instId = plainId, name = ''amp-9c5b94b1'', tmuxPane = ''amp-manager:amp-9c5b94b1'',
      status = Authenticating, createdAt = 1700000000000, lastActivity = 1700000000000,
      lastInactivityCheck = 1700000000000, workingDirectory = Some ''/home/dev/project'',
      logFile = Some ''/tmp/amp-manager/amp-9c5b94b1.log'', outputLines = [],
      currentPrompt = None, threadId = None, authStatus = Unknown, pendingCommand = None,
      stats = noStats, config = emptyConfig, errorPatterns = defaultErrorPatterns,
      inactivityThreshold = 120, ampSettings = Some defaultGlobalSettings\<rparr>"

definition plainWorld :: world where
  "plainWorld = createdWorld plainInstance"

definition busyWorld :: world where
  "busyWorld = snd (sendPrompt plainId ''ls'' plainWorld)"

definition busyInstance :: AmpInstance where
  "busyInstance =
     plainInstance\<lparr>status := Running, lastActivity := 1700000003200,
                    currentPrompt := Some ''ls'',
                    stats := noStats\<lparr>promptsExecuted := 1\<rparr>\<rparr>"

definition failure :: io_outcome where
  "failure = \<lparr>io_ok = False, io_elapsed = 20, io_stdout = []\<rparr>"

definition success :: io_outcome where
  "success = \<lparr>io_ok = True, io_elapsed = 20, io_stdout = []\<rparr>"

text \<open>
  A log line as the agent writes it, and a runtime that agrees with JavaScript on the lines
  the examples use: \<open>JSON.parse\<close> accepts \<open>agentLine\<close> and rejects the two lines of
  \<open>brokenChunk\<close>, a number is its own epoch time, the message holds no state transition and
  the entry no \<open>inferenceState\<close>.
\<close>

definition agentLine :: string where
  "agentLine =
     ''{\"timestamp\":1700000003100,\"level\":\"info\",\"message\":\"processing request\"}''"

definition agentEntry :: json where
  "agentEntry =
     JObj [(''timestamp'', JNum 1700000003100), (''level'', JStr ''info''),
           (''message'', JStr ''processing request'')]"

definition brokenChunk :: string where
  "brokenChunk = ''Error: stream closed'' @ [CHR 0x0A] @ ''{\"timestamp\":17000'' @ [CHR 0x0A]"

definition exampleRuntime :: jsrt where
  "exampleRuntime =
     \<lparr>JSON_parse = (\<lambda>line. if line = agentLine then Some agentEntry else None),
      Date_time = (\<lambda>v. case v of Some (JNum n) \<Rightarrow> Some n | _ \<Rightarrow> None),
      String_of = (\<lambda>v. case v of JStr s \<Rightarrow> s | _ \<Rightarrow> []),
      transition_match = (\<lambda>message. None),
      inference_match = (\<lambda>entry. None)\<rparr>"

text \<open>The supervisor at the start, in an environment where the eighth external call
  fails.\<close>

definition lostProbeWorld :: world where
  "lostProbeWorld =
     world0\<lparr>io := [success, success, success, success, success, success, success, failure]\<rparr>"

text \<open>The instance running \<open>ls\<close> after its output timer has captured an error message
  from the pane.\<close>

definition capturedError :: io_outcome where
  "capturedError =
     \<lparr>io_ok = True, io_elapsed = 30,
      io_stdout = ''$ ls'' @ [CHR 0x0A] @ ''Error: connection refused''\<rparr>"

definition erroredWorld :: world where
  "erroredWorld = outputMonitorTick plainId (busyWorld\<lparr>io := [capturedError]\<rparr>)"

definition erroredInstance :: AmpInstance where
  "erroredInstance =
     busyInstance\<lparr>outputLines := [''$ ls'', ''Error: connection refused''],
                   lastActivity := 1700000003230\<rparr>"

text \<open>The instance running \<open>ls\<close> after 200 seconds without any activity.\<close>

definition staleWorld :: world where
  "staleWorld = sleep 200000 busyWorld"

text \<open>The store with two registered instances: \<open>guarded\<close>, holding \<open>rm -rf /\<close> for approval,
  and the one running \<open>ls\<close>; then the store after \<open>listInstances\<close>, and the store after
  \<open>toggle_auto_restart\<close> for the first instance.\<close>

definition heldInstance :: AmpInstance where
  "heldInstance =
     guardedInstance\<lparr>status := WaitingApproval,
       pendingCommand := Some \<lparr>command = ''rm -rf /'', requiresApproval = True,
                                timestamp = 1700000003200\<rparr>\<rparr>"

definition exampleStore :: store where
  "exampleStore = storeInstance busyInstance (storeInstance heldInstance emptyStore)"

definition listedStore :: store where
  "listedStore = (case listInstances exampleStore of Some (rs, s) \<Rightarrow> s | None \<Rightarrow> exampleStore)"

definition toggledStore :: store where
  "toggledStore =
     (case toggleAutoRestart guardedId exampleStore of Some (flag, s) \<Rightarrow> s | None \<Rightarrow> exampleStore)"

text \<open>  A runtime that also parses the line \<open>42\<close>, as \<open>JSON.parse\<close> does, to a number; the chunk
  that holds this line, and the chunk of two broken lines followed by it.\<close>

definition numberRuntime :: jsrt where
  "numberRuntime =
     exampleRuntime\<lparr>JSON_parse :=
       (\<lambda>line. if line = ''42'' then Some (JNum 42) else JSON_parse exampleRuntime line)\<rparr>"

definition numberChunk :: string where
  "numberChunk = ''42'' @ [CHR 0x0A]"

definition mixedChunk :: string where
  "mixedChunk = brokenChunk @ numberChunk"

text \<open>  The instance with the captured error message 200 seconds later, when \<open>tmux\<close> rejects the
  next key stroke.\<close>

definition deadPaneWorld :: world where
  "deadPaneWorld = (sleep 200000 erroredWorld)\<lparr>io := [failure]\<rparr>"

text \<open>  The supervisor running \<open>ls\<close> with a second instance created next to it (\<open>lateGuarded\<close> is
  the instance that \<open>createInstance\<close> registers, see \<open>pair_fields\<close> below). Then, 200 seconds
  later, an environment in which the next call takes 57 seconds, the six after it succeed
  and the two after those are rejected.\<close>

definition lateGuarded :: AmpInstance where
  "lateGuarded =
     guardedInstance\<lparr>createdAt := 1700000003200, lastActivity := 1700000003200,
                      lastInactivityCheck := 1700000003200\<rparr>"

definition pairWorld :: world where
  "pairWorld = snd (createInstance guardedId (Some guardedConfig) busyWorld)"

definition slow :: io_outcome where
  "slow = \<lparr>io_ok = True, io_elapsed = 57000, io_stdout = []\<rparr>"

definition slowSweepWorld :: world where
  "slowSweepWorld =
     (sleep 200000 pairWorld)
       \<lparr>io := [slow, success, success, success, success, success, success, failure, failure]\<rparr>"


section \<open>Basic facts about the primitives\<close>

declare decimal.simps [simp del]

lemma getInstance_updInstance [simp]:
  "getInstance (updInstance i f w) j =
     (if j = i then map_option f (getInstance w i) else getInstance w j)"
proof -
  have "map_of (map (\<lambda>(k, v). if k = i then (k, f v) else (k, v)) xs) j =
        (if j = i then map_option f (map_of xs i) else map_of xs j)" for xs
    by (induction xs) auto
  then show ?thesis by (simp add: getInstance_def updInstance_def)
qed

lemma tmux_eq:
  "tmux args w =
     (if next_ok w then Inr () else Inl (TmuxFailed args), popped (w\<lparr>sent := sent w @ [args]\<rparr>))"
  by (simp add: tmux_def runTmuxCommand_def externalCall_def next_ok_def popped_def Let_def
      split: list.splits)

lemma fsCall_eq: "fsCall p w = (if next_ok w then Inr () else Inl (FsFailed p), popped w)"
  by (simp add: fsCall_def externalCall_def next_ok_def popped_def Let_def split: list.splits)

lemma instances_popped [simp]: "instances (popped w) = instances w"
  by (simp add: popped_def split: list.splits)

lemma io_popped [simp]: "io (popped w) = tl (io w)"
  by (simp add: popped_def split: list.splits)

lemma events_popped [simp]: "events (popped w) = events w"
  by (simp add: popped_def split: list.splits)

lemma clock_popped: "clock w \<le> clock (popped w)"
  by (simp add: popped_def split: list.splits)

lemma getInstance_simps [simp]:
  "getInstance (popped w) j = getInstance w j"
  "getInstance (w\<lparr>sent := x\<rparr>) j = getInstance w j"
  "getInstance (w\<lparr>io := y\<rparr>) j = getInstance w j"
  "getInstance (emitEvent i ty d sev w) j = getInstance w j"
  "getInstance (sleep ms w) j = getInstance w j"
  "getInstance (stopOutputMonitoring i w) j = getInstance w j"
  "getInstance (stopLogMonitoring i w) j = getInstance w j"
  "getInstance (startOutputMonitoring i w) j = getInstance w j"
  "getInstance (startLogMonitoring i w) j = getInstance w j"
  by (simp_all add: getInstance_def emitEvent_def sleep_def stopOutputMonitoring_def
      stopLogMonitoring_def startOutputMonitoring_def startLogMonitoring_def
      split: option.splits)

lemma io_simps [simp]:
  "io (emitEvent i ty d sev w) = io w"
  "io (stopOutputMonitoring i w) = io w"
  "io (stopLogMonitoring i w) = io w"
  "io (sleep ms w) = io w"
  "io (updInstance i f w) = io w"
  by (simp_all add: emitEvent_def stopOutputMonitoring_def stopLogMonitoring_def sleep_def
      updInstance_def)

lemma sent_simps [simp]:
  "sent (emitEvent i ty d sev w) = sent w"
  "sent (sleep ms w) = sent w"
  "sent (updInstance i f w) = sent w"
  by (simp_all add: emitEvent_def sleep_def updInstance_def)

lemma clock_simps [simp]:
  "clock (emitEvent i ty d sev w) = clock w"
  "clock (updInstance i f w) = clock w"
  "clock (stopOutputMonitoring i w) = clock w"
  "clock (stopLogMonitoring i w) = clock w"
  "clock (startOutputMonitoring i w) = clock w"
  "clock (startLogMonitoring i w) = clock w"
  by (simp_all add: emitEvent_def updInstance_def stopOutputMonitoring_def
      stopLogMonitoring_def startOutputMonitoring_def startLogMonitoring_def
      split: option.splits)

lemma next_ok_simps [simp]:
  "next_ok (emitEvent i ty d sev w) = next_ok w"
  "next_ok (stopOutputMonitoring i w) = next_ok w"
  "next_ok (stopLogMonitoring i w) = next_ok w"
  "next_ok (sleep ms w) = next_ok w"
  "next_ok (updInstance i f w) = next_ok w"
  "next_ok (w\<lparr>sent := x\<rparr>) = next_ok w"
  by (simp_all add: next_ok_def)

subsection \<open>Sequences of statements\<close>

lemma steps_append:
  "steps (xs @ ys) w =
     (case steps xs w of (Inl e, w') \<Rightarrow> (Inl e, w') | (Inr u, w') \<Rightarrow> steps ys w')"
  by (induction xs arbitrary: w) (auto split: prod.splits sum.splits)

lemma maintains_steps:
  assumes refl: "\<And>w. R w w"
    and trans: "\<And>a b c. R a b \<Longrightarrow> R b c \<Longrightarrow> R a c"
    and each: "\<And>m. m \<in> set ms \<Longrightarrow> maintains R m"
  shows "maintains R (steps ms)"
  using each
proof (induction ms)
  case Nil
  then show ?case by (simp add: maintains_def refl)
next
  case (Cons m ms)
  have rm: "maintains R m" and rs: "maintains R (steps ms)"
    using Cons by auto
  show ?case
    unfolding maintains_def
  proof
    fix w
    obtain r w' where mw: "m w = (r, w')" by (cases "m w")
    have a: "R w w'" using rm mw by (auto simp: maintains_def dest: spec [of _ w])
    show "R w (snd (steps (m # ms) w))"
    proof (cases r)
      case (Inl e)
      then show ?thesis using mw a by simp
    next
      case (Inr u)
      have "R w' (snd (steps ms w'))" using rs by (simp add: maintains_def)
      then show ?thesis using Inr mw a trans by auto
    qed
  qed
qed

lemma maintains_ok: "(\<And>w. R w (f w)) \<Longrightarrow> maintains R (ok f)"
  by (simp add: maintains_def ok_def)

lemma maintains_withInstance:
  "(\<And>w. R w w) \<Longrightarrow> (\<And>x. maintains R (f x)) \<Longrightarrow> maintains R (withInstance i f)"
  by (simp add: maintains_def withInstance_def split: option.splits)

subsection \<open>Statements that leave the registry alone\<close>

lemma keeps_steps:
  "(\<And>m. m \<in> set ms \<Longrightarrow> maintains sameInstances m) \<Longrightarrow> maintains sameInstances (steps ms)"
  by (rule maintains_steps) (auto simp: sameInstances_def)

lemma keeps_getInstance:
  "maintains sameInstances m \<Longrightarrow> getInstance (snd (m w)) j = getInstance w j"
  by (simp add: maintains_def sameInstances_def getInstance_def)

lemma keeps_primitives [simp]:
  "maintains sameInstances (tmux args)"
  "maintains sameInstances (fsCall p)"
  "maintains sameInstances (ok (sleep ms))"
  "maintains sameInstances (ok (emitEvent i ty d sev))"
  "maintains sameInstances (ok (\<lambda>w. w))"
  "maintains sameInstances (ok (stopOutputMonitoring i))"
  "maintains sameInstances (ok (stopLogMonitoring i))"
  "maintains sameInstances (ok (startOutputMonitoring i))"
  "maintains sameInstances (ok (startLogMonitoring i))"
  by (simp_all add: maintains_def sameInstances_def tmux_eq fsCall_eq ok_def sleep_def
      emitEvent_def stopOutputMonitoring_def stopLogMonitoring_def startOutputMonitoring_def
      startLogMonitoring_def split: option.splits)

lemma keeps_setup [simp]: "maintains sameInstances (setupInstanceEnvironment inst)"
  unfolding maintains_def
proof
  fix w
  let ?ms = "map (\<lambda>envVar. tmux [''send-keys'', ''-t'', target w inst, envVar, ''Enter''])
               (envVars w inst) @
             [if ampSettings inst \<noteq> None
              then fsCall (join_path (settingsDir w) (name inst @ ''-settings.json''))
              else ok (\<lambda>w. w),
              ok (sleep 200)]"
  have "maintains sameInstances (steps ?ms)"
    by (rule keeps_steps) auto
  then show "sameInstances w (snd (setupInstanceEnvironment inst w))"
    by (simp add: maintains_def setupInstanceEnvironment_def)
qed

lemma keeps_startAmp [simp]: "maintains sameInstances (startAmpCLI inst)"
  unfolding maintains_def
proof
  fix w
  have "maintains sameInstances
          (steps [tmux [''send-keys'', ''-t'', target w inst, buildAmpCommand inst, ''Enter''],
                  ok (sleep 1000)])"
    by (rule keeps_steps) auto
  then show "sameInstances w (snd (startAmpCLI inst w))"
    by (simp add: maintains_def startAmpCLI_def)
qed

lemma keeps_withInstance:
  "(\<And>x. maintains sameInstances (f x)) \<Longrightarrow> maintains sameInstances (withInstance i f)"
  by (rule maintains_withInstance) (auto simp: sameInstances_def)

subsection \<open>The two halves of a restart\<close>

lemma restart_split:
  "getInstance w i = Some inst \<Longrightarrow>
   restartInstance i reason w =
     steps (restartPrefix i reason (target w inst) @ [ok (resetInstance i)] @ restartSuffix i) w"
  by (simp add: restartInstance_def restartPrefix_def restartSuffix_def)

lemma keeps_prefix: "maintains sameInstances (steps (restartPrefix i reason tgt))"
  by (rule keeps_steps) (auto simp: restartPrefix_def)

lemma keeps_suffix: "maintains sameInstances (steps (restartSuffix i))"
  by (rule keeps_steps) (auto simp: restartSuffix_def intro!: keeps_withInstance)

lemma fst_prefix:
  "fst (steps (restartPrefix i reason tgt) w) =
     (if list_all io_ok (take 2 (io w)) then Inr ()
      else Inl (TmuxFailed (if next_ok w then [''send-keys'', ''-t'', tgt, ''clear'', ''Enter'']
                            else [''send-keys'', ''-t'', tgt, ''C-c''])))"
proof (cases "io w")
  case Nil
  then show ?thesis
    by (simp add: restartPrefix_def ok_def tmux_eq next_ok_def)
next
  case (Cons r rest)
  then show ?thesis
    by (cases rest) (auto simp: restartPrefix_def ok_def tmux_eq next_ok_def)
qed

subsection \<open>Evaluating the example states\<close>

lemmas eval_defs =
  createInstance_def newInstance_def emptyConfig_def defaultGlobalSettings_def
  fsCall_def externalCall_def tmux_def runTmuxCommand_def setupInstanceEnvironment_def
  startAmpCLI_def checkAuthStatus_def envVars_def truthy_str_def mergeSettings_def orElse_def
  target_def join_path_def buildAmpCommand_def ok_def sleep_def emitEvent_def mapSet_def
  startLogMonitoring_def startOutputMonitoring_def stopLogMonitoring_def
  stopOutputMonitoring_def getInstance_def initialState_def updInstance_def sendPrompt_def
  truthy_def waitForApproval_def executePrompt_def allowlist_of_def toLowerCase_def
  toLowerCase_char_def approveCommand_def cancelCommand_def restartInstance_def
  resetInstance_def withInstance_def trim_def is_space_def Let_def


lemma guarded_created:
  "createInstance guardedId (Some guardedConfig) world0 = (Inr guardedInstance, guardedWorld)"
  by (simp add: guardedWorld_def createdWorld_def startupKeys_def guardedInstance_def
      guardedConfig_def guardedId_def world0_def noStats_def eval_defs)

lemma plain_created:
  "createInstance plainId (Some emptyConfig) world0 = (Inr plainInstance, plainWorld)"
  by (simp add: plainWorld_def createdWorld_def startupKeys_def plainInstance_def
      plainId_def world0_def noStats_def eval_defs)

lemma created_fields [simp]:
  "instances (createdWorld inst) = [(instId inst, inst)]"
  "io (createdWorld inst) = []"
  "sessionName (createdWorld inst) = ''amp-manager''"
  "clock (createdWorld inst) = 1700000003200"
  "logMonitors (createdWorld inst) = [(instId inst, initialState 1700000003200)]"
  "outputMonitors (createdWorld inst) = [instId inst]"
  by (simp_all add: createdWorld_def world0_def)

lemma guarded_fields [simp]:
  "instances guardedWorld = [(guardedId, guardedInstance)]"
  "getInstance guardedWorld guardedId = Some guardedInstance"
  "io guardedWorld = []"
  "sessionName guardedWorld = ''amp-manager''"
  "clock guardedWorld = 1700000003200"
  "logMonitors guardedWorld = [(guardedId, initialState 1700000003200)]"
  "requireApproval (config guardedInstance) = Some True"
  "commandAllowlist (config guardedInstance) = Some [''git status'']"
  "allowlist_of guardedInstance = [''git status'', ''ls -la'', ''pwd'', ''cat'', ''grep'']"
  by (simp_all add: guardedWorld_def guardedInstance_def guardedConfig_def emptyConfig_def
      getInstance_def allowlist_of_def defaultGlobalSettings_def)

lemma plain_fields [simp]:
  "instances plainWorld = [(plainId, plainInstance)]"
  "getInstance plainWorld plainId = Some plainInstance"
  "io plainWorld = []"
  "sessionName plainWorld = ''amp-manager''"
  "clock plainWorld = 1700000003200"
  "outputMonitors plainWorld = [plainId]"
  "requireApproval (config plainInstance) = None"
  "allowlist_of plainInstance = [''git status'', ''ls -la'', ''pwd'', ''cat'', ''grep'']"
  by (simp_all add: plainWorld_def plainInstance_def emptyConfig_def getInstance_def
      allowlist_of_def defaultGlobalSettings_def)

lemma busy_fields [simp]:
  "instances busyWorld = [(plainId, busyInstance)]"
  "io busyWorld = []"
  "sessionName busyWorld = ''amp-manager''"
  "getInstance busyWorld plainId = Some busyInstance"
  "outputMonitors busyWorld = [plainId]"
  "clock busyWorld = 1700000003200"
  by (simp_all add: busyWorld_def busyInstance_def sendPrompt_def executePrompt_def truthy_def
      ok_def tmux_eq next_ok_def popped_def emitEvent_def updInstance_def getInstance_def
      target_def noStats_def plainInstance_def emptyConfig_def defaultGlobalSettings_def
      allowlist_of_def)

text \<open>The loop body of the sweep: an error of the inactivity part ends it.\<close>

lemma healthCheckOne_body:
  "healthCheckOne now i w =
     (case inactivityCheck now i w of
        (Inl e, w2) \<Rightarrow> w2
      | (Inr u, w2) \<Rightarrow> snd (checkForErrorPatterns i w2))"
  by (simp add: healthCheckOne_def split: prod.splits sum.splits)


section \<open>Restart\<close>

text \<open>
  Claim C4, as the code has it. \<open>restartInstance\<close> first sends the interrupt and the
  \<open>clear\<close> key strokes. When both are delivered, the registered instance ends with status
  \<open>idle\<close>, no pending command, no current prompt, an empty output buffer and a restart
  count one higher than before, whatever happens to the relaunch that follows. When one of
  the two is rejected, the call fails with that error and the instance is left as it was.
\<close>

theorem C4_restart_resets_after_interrupt:
  assumes reg: "getInstance w i = Some inst"
  shows "(list_all io_ok (take 2 (io w)) \<longrightarrow>
           (\<exists>inst'. getInstance (snd (restartInstance i reason w)) i = Some inst' \<and>
              status inst' = Idle \<and> pendingCommand inst' = None \<and>
              currentPrompt inst' = None \<and> outputLines inst' = [] \<and>
              restartCount (stats inst') = Suc (restartCount (stats inst)))) \<and>
         (\<not> list_all io_ok (take 2 (io w)) \<longrightarrow>
           (\<exists>args. fst (restartInstance i reason w) = Inl (TmuxFailed args)) \<and>
           getInstance (snd (restartInstance i reason w)) i = Some inst)"
proof -
  let ?pre = "restartPrefix i reason (target w inst)"
  obtain r1 w1 where pre: "steps ?pre w = (r1, w1)"
    by (cases "steps ?pre w")
  have r1: "r1 = (if list_all io_ok (take 2 (io w)) then Inr ()
      else Inl (TmuxFailed
             (if next_ok w then [''send-keys'', ''-t'', target w inst, ''clear'', ''Enter'']
              else [''send-keys'', ''-t'', target w inst, ''C-c''])))"
    using fst_prefix [of i reason "target w inst" w] pre by simp
  have g1: "getInstance w1 i = Some inst"
    using keeps_getInstance [OF keeps_prefix, of i reason "target w inst" w i] pre reg by simp
  show ?thesis
  proof (cases "list_all io_ok (take 2 (io w))")
    case True
    obtain r2 w2 where suf: "steps (restartSuffix i) (resetInstance i w1) = (r2, w2)"
      by (cases "steps (restartSuffix i) (resetInstance i w1)")
    have "restartInstance i reason w = (r2, w2)"
      using True pre r1 suf by (simp add: restart_split [OF reg] steps_append ok_def)
    moreover have "getInstance w2 i = getInstance (resetInstance i w1) i"
      using keeps_getInstance [OF keeps_suffix, of i "resetInstance i w1" i] suf by simp
    ultimately show ?thesis
      using True g1 by (simp add: resetInstance_def)
  next
    case False
    have "restartInstance i reason w = (r1, w1)"
      using False pre r1 by (simp add: restart_split [OF reg] steps_append)
    then show ?thesis
      using False g1 r1 by auto
  qed
qed

text \<open>
  The claim as written fails when the interrupt cannot be delivered: the instance that is
  running \<open>ls\<close> stays \<open>running\<close>, with its restart count still 0, and the call is rejected.
\<close>

theorem C4_restart_counterexample:
  "fst (restartInstance plainId None (busyWorld\<lparr>io := [failure]\<rparr>)) =
     Inl (TmuxFailed [''send-keys'', ''-t'', ''amp-manager:amp-9c5b94b1'', ''C-c'']) \<and>
   map_option status
     (getInstance (snd (restartInstance plainId None (busyWorld\<lparr>io := [failure]\<rparr>))) plainId) =
     Some Running \<and>
   map_option (restartCount \<circ> stats)
     (getInstance (snd (restartInstance plainId None (busyWorld\<lparr>io := [failure]\<rparr>))) plainId) =
     Some 0"
  by (simp add: restartInstance_def ok_def tmux_eq next_ok_def failure_def target_def
      busyInstance_def plainInstance_def noStats_def)

theorem C4_restart_witness:
  "getInstance busyWorld plainId = Some busyInstance \<and>
   list_all io_ok (take 2 (io busyWorld)) \<and>
   (\<exists>inst'. getInstance (snd (restartInstance plainId (Some ''manual'') busyWorld)) plainId =
               Some inst' \<and>
            status inst' = Idle \<and> pendingCommand inst' = None \<and>
            currentPrompt inst' = None \<and> outputLines inst' = [] \<and>
            restartCount (stats inst') = Suc 0) \<and>
   \<not> list_all io_ok (take 2 (io (busyWorld\<lparr>io := [success, failure]\<rparr>))) \<and>
   getInstance (snd (restartInstance plainId None (busyWorld\<lparr>io := [success, failure]\<rparr>)))
     plainId = Some busyInstance"
proof -
  have reg: "getInstance busyWorld plainId = Some busyInstance"
    by simp
  have reg2: "getInstance (busyWorld\<lparr>io := [success, failure]\<rparr>) plainId = Some busyInstance"
    by simp
  have rc: "restartCount (stats busyInstance) = 0"
    by (simp add: busyInstance_def noStats_def)
  have io2: "\<not> list_all io_ok (take 2 (io (busyWorld\<lparr>io := [success, failure]\<rparr>)))"
    by (simp add: failure_def)
  show ?thesis
    using C4_restart_resets_after_interrupt [OF reg, of "Some ''manual''"]
      C4_restart_resets_after_interrupt [OF reg2, of None] rc io2
    by auto
qed


section \<open>The approval gate\<close>

lemma pending_fields [simp]:
  "instances pendingWorld =
     [(guardedId, guardedInstance\<lparr>status := WaitingApproval,
         pendingCommand := Some \<lparr>command = ''rm -rf /'', requiresApproval = True,
                                  timestamp = 1700000003200\<rparr>\<rparr>)]"
  "io pendingWorld = []"
  "sent pendingWorld = sent guardedWorld"
  "clock pendingWorld = 1700000003200"
  "logMonitors pendingWorld = [(guardedId, initialState 1700000003200)]"
  by (simp_all add: pendingWorld_def sendPrompt_def truthy_def waitForApproval_def
      emitEvent_def updInstance_def)

subsection \<open>Submission\<close>

text \<open>With \<open>requireApproval\<close> set, \<open>sendPrompt\<close> holds every prompt for approval; the
  allowlist is not looked at.\<close>

lemma sendPrompt_requireApproval:
  assumes "getInstance w i = Some inst" and "requireApproval (config inst) = Some True"
  shows "sendPrompt i prompt w = (Inr (), waitForApproval i prompt w)"
    and "map_option status (getInstance (snd (sendPrompt i prompt w)) i) = Some WaitingApproval"
  using assms by (simp_all add: sendPrompt_def truthy_def waitForApproval_def)

text \<open>
  Claim C2 on the code. The instance \<open>guarded\<close> was created with \<open>requireApproval = true\<close>
  and \<open>commandAllowlist = ["git status"]\<close>, and its settings allow \<open>git status\<close> as well.
  Submitting \<open>git status\<close> does not make it \<open>running\<close>: it is left waiting for approval with
  the prompt pending, and nothing is typed into its session.
\<close>

theorem C2_allowlisted_prompt_is_held:
  "createInstance guardedId (Some guardedConfig) world0 = (Inr guardedInstance, guardedWorld) \<and>
   requireApproval (config guardedInstance) = Some True \<and>
   commandAllowlist (config guardedInstance) = Some [''git status''] \<and>
   list_ex (\<lambda>allowed. includes_str (toLowerCase ''git status'') (toLowerCase allowed))
     (allowlist_of guardedInstance) \<and>
   fst (sendPrompt guardedId ''git status'' guardedWorld) = Inr () \<and>
   map_option status (getInstance (snd (sendPrompt guardedId ''git status'' guardedWorld)) guardedId)
     = Some WaitingApproval \<and>
   map_option (map_option command \<circ> pendingCommand)
     (getInstance (snd (sendPrompt guardedId ''git status'' guardedWorld)) guardedId)
     = Some (Some ''git status'') \<and>
   sent (snd (sendPrompt guardedId ''git status'' guardedWorld)) = sent guardedWorld"
  by (simp add: guarded_created sendPrompt_def truthy_def waitForApproval_def toLowerCase_def
      toLowerCase_char_def)

subsection \<open>Approval\<close>

text \<open>\<open>approveCommand\<close> goes through \<open>executePrompt\<close>, which consults the allowlist: an
  approved command runs when it is allowed or approval is not required, and is put back
  on hold otherwise.\<close>

lemma approveCommand_split:
  assumes "getInstance w i = Some inst" and "pendingCommand inst = Some pc"
  shows "approveCommand i w =
           executePrompt i (command pc) (updInstance i (\<lambda>x. x\<lparr>pendingCommand := None\<rparr>) w)"
  using assms by (simp add: approveCommand_def)

lemma approveCommand_held_again:
  assumes "getInstance w i = Some inst" and "pendingCommand inst = Some pc"
    and "requireApproval (config inst) = Some True"
    and "\<not> list_ex (\<lambda>allowed. includes_str (toLowerCase (command pc)) (toLowerCase allowed))
             (allowlist_of inst)"
  shows "fst (approveCommand i w) = Inr ()"
    and "getInstance (snd (approveCommand i w)) i =
           Some (inst\<lparr>status := WaitingApproval,
                   pendingCommand := Some \<lparr>command = command pc, requiresApproval = True,
                                            timestamp = clock w\<rparr>\<rparr>)"
    and "sent (snd (approveCommand i w)) = sent w"
  using assms
  by (simp_all add: approveCommand_def executePrompt_def truthy_def allowlist_of_def
      waitForApproval_def)

text \<open>
  Claim C3 on the code. \<open>rm -rf /\<close> is pending on the instance \<open>guarded\<close>. Approving it
  succeeds, but the command is not executed: the instance is still waiting for approval
  with the same command pending, no prompt has been counted and nothing has been typed into
  the session. The decision was taken again against the allowlist.
\<close>

theorem C3_approved_command_is_held_again:
  "map_option status (getInstance pendingWorld guardedId) = Some WaitingApproval \<and>
   map_option (map_option command \<circ> pendingCommand) (getInstance pendingWorld guardedId)
     = Some (Some ''rm -rf /'') \<and>
   fst (approveCommand guardedId pendingWorld) = Inr () \<and>
   map_option status (getInstance (snd (approveCommand guardedId pendingWorld)) guardedId)
     = Some WaitingApproval \<and>
   map_option (map_option command \<circ> pendingCommand)
     (getInstance (snd (approveCommand guardedId pendingWorld)) guardedId)
     = Some (Some ''rm -rf /'') \<and>
   map_option currentPrompt (getInstance (snd (approveCommand guardedId pendingWorld)) guardedId)
     = Some None \<and>
   map_option (promptsExecuted \<circ> stats)
     (getInstance (snd (approveCommand guardedId pendingWorld)) guardedId) = Some 0 \<and>
   sent (snd (approveCommand guardedId pendingWorld)) = sent pendingWorld"
  by (simp add: getInstance_def approveCommand_def executePrompt_def truthy_def
      waitForApproval_def emitEvent_def updInstance_def allowlist_of_def toLowerCase_def
      toLowerCase_char_def)
     (simp add: guardedInstance_def noStats_def defaultGlobalSettings_def toLowerCase_def
      toLowerCase_char_def guardedConfig_def emptyConfig_def)

subsection \<open>Approving and rejecting without a pending command\<close>

lemma approveCommand_no_pending:
  assumes "getInstance w i = Some inst" and "pendingCommand inst = None"
  shows "approveCommand i w = (Inl (NoPendingCommand i), w)"
  using assms by (simp add: approveCommand_def)

lemma cancelCommand_always_succeeds:
  assumes "getInstance w i = Some inst"
  shows "fst (cancelCommand i w) = Inr ()"
    and "getInstance (snd (cancelCommand i w)) i = Some (inst\<lparr>pendingCommand := None, status := Idle\<rparr>)"
  using assms by (simp_all add: cancelCommand_def)

text \<open>
  Claim C5 on the code. The instance running \<open>ls\<close> has no pending command. Approving
  fails with \<open>NoPendingCommand\<close> and changes nothing, as claimed; rejecting does not fail:
  \<open>cancelCommand\<close> succeeds and turns the status from \<open>running\<close> to \<open>idle\<close>.
\<close>

theorem C5_reject_without_pending_succeeds:
  "map_option pendingCommand (getInstance busyWorld plainId) = Some None \<and>
   map_option status (getInstance busyWorld plainId) = Some Running \<and>
   approveCommand plainId busyWorld = (Inl (NoPendingCommand plainId), busyWorld) \<and>
   fst (cancelCommand plainId busyWorld) = Inr () \<and>
   map_option status (getInstance (snd (cancelCommand plainId busyWorld)) plainId) = Some Idle"
  by (simp add: approveCommand_def cancelCommand_def busyInstance_def plainInstance_def)

subsection \<open>Pending command and status\<close>

text \<open>
  Claim C1 on the code. \<open>rm -rf /\<close> is pending on the instance \<open>guarded\<close> when its log
  monitor reads a line saying that the agent is processing. The listener for the state
  change sets the status to \<open>running\<close> and leaves the pending command in place.
\<close>

theorem C1_log_update_keeps_pending:
  "map_option status (getInstance pendingWorld guardedId) = Some WaitingApproval \<and>
   JSON_parse exampleRuntime agentLine = Some agentEntry \<and>
   map_option status
     (getInstance (run exampleRuntime [LogPoll guardedId agentLine] pendingWorld) guardedId)
     = Some Running \<and>
   map_option (map_option command \<circ> pendingCommand)
     (getInstance (run exampleRuntime [LogPoll guardedId agentLine] pendingWorld) guardedId)
     = Some (Some ''rm -rf /'')"
  by (simp add: run_def logMonitorPoll_def parseLogContent_def log_lines_def agentLine_def
      blank_def is_space_def exampleRuntime_def agentEntry_def processLogEntry_def jprop_def
      Let_def transitionBlock_def mentionBlock_def promptBlock_def dataBlock_def
      workerBlock_def userMessageBlock_def completionBlock_def setAgent_def setWaiting_def
      hasStateChanged_def isRunning_def initialState_def deliver_def onStateChanged_def
      getInstance_def updInstance_def emitEvent_def status_str_def)


section \<open>Creation\<close>

subsection \<open>Counting external calls\<close>

lemma consumes_nil: "consumes 0 (steps [])"
  by (simp add: consumes_def)

lemma consumes_cons:
  assumes "consumes a m" and "consumes b (steps ms)"
  shows "consumes (a + b) (steps (m # ms))"
  unfolding consumes_def
proof (intro allI impI)
  fix w w' u
  assume run: "steps (m # ms) w = (Inr u, w')"
  obtain r w1 where mw: "m w = (r, w1)" by (cases "m w")
  show "io w' = drop (a + b) (io w)"
  proof (cases r)
    case (Inl e)
    then show ?thesis using run mw by simp
  next
    case (Inr v)
    then have "io w1 = drop a (io w)" using assms(1) mw by (auto simp: consumes_def)
    moreover have "steps ms w1 = (Inr u, w')" using run mw Inr by simp
    then have "io w' = drop b (io w1)" using assms(2) by (auto simp: consumes_def)
    ultimately show ?thesis by (simp add: add.commute)
  qed
qed

lemma consumes_tmux: "consumes 1 (tmux args)"
  by (auto simp: consumes_def tmux_eq drop_Suc)

lemma consumes_fsCall: "consumes 1 (fsCall p)"
  by (auto simp: consumes_def fsCall_eq drop_Suc)

lemma consumes_ok: "(\<And>w. io (f w) = io w) \<Longrightarrow> consumes 0 (ok f)"
  by (auto simp: consumes_def ok_def)

lemma consumes_map_tmux:
  assumes "consumes n (steps ms)"
  shows "consumes (length vs + n) (steps (map (\<lambda>v. tmux (f v)) vs @ ms))"
proof (induction vs)
  case Nil
  then show ?case using assms by simp
next
  case (Cons v vs)
  have "consumes (1 + (length vs + n)) (steps (tmux (f v) # (map (\<lambda>v. tmux (f v)) vs @ ms)))"
    by (rule consumes_cons [OF consumes_tmux Cons])
  then show ?case by (simp del: steps.simps)
qed

lemma length_envVars:
  "truthy_str (logFile inst) \<Longrightarrow>
   length (envVars w inst) =
     3 + (case environment (config inst) of None \<Rightarrow> 0 | Some kvs \<Rightarrow> length kvs)"
  by (simp add: envVars_def split: option.splits)

lemma setup_consumes:
  assumes "setupInstanceEnvironment inst w = (Inr u, w')"
    and "truthy_str (logFile inst)" and "ampSettings inst \<noteq> None"
  shows "io w' = drop (4 + (case environment (config inst) of None \<Rightarrow> 0 | Some kvs \<Rightarrow> length kvs)) (io w)"
proof -
  let ?tail = "[fsCall (join_path (settingsDir w) (name inst @ ''-settings.json'')), ok (sleep 200)]"
  have t: "consumes 1 (steps ?tail)"
    using consumes_cons [OF consumes_fsCall consumes_cons [OF consumes_ok consumes_nil], of "sleep 200"]
    by (simp add: sleep_def del: steps.simps)
  have "consumes (length (envVars w inst) + 1)
          (steps (map (\<lambda>v. tmux [''send-keys'', ''-t'', target w inst, v, ''Enter''])
                      (envVars w inst) @ ?tail))"
    by (rule consumes_map_tmux [OF t])
  then show ?thesis
    using assms by (simp add: consumes_def setupInstanceEnvironment_def length_envVars)
qed

lemma startAmp_consumes:
  assumes "startAmpCLI inst w = (Inr u, w')"
  shows "io w' = drop 1 (io w)"
proof -
  have "consumes 1 (steps [tmux [''send-keys'', ''-t'', target w inst, buildAmpCommand inst, ''Enter''], ok (sleep 1000)])"
    using consumes_cons [OF consumes_tmux consumes_cons [OF consumes_ok consumes_nil], of "sleep 1000"]
    by (simp add: sleep_def del: steps.simps)
  then show ?thesis using assms by (simp add: consumes_def startAmpCLI_def)
qed

lemma checkAuthStatus_result:
  "fst (checkAuthStatus inst w) =
     (if next_ok w then inst\<lparr>status := Authenticating\<rparr>
      else inst\<lparr>status := Authenticating, authStatus := Failed\<rparr>)"
  by (simp add: checkAuthStatus_def tmux_eq Let_def)

lemma next_ok_take: "next_ok w = list_all io_ok (take 1 (io w))"
  by (simp add: next_ok_def split: list.splits)

lemma newInstance_fields:
  "omitsWatchdogSettings cfg \<Longrightarrow> inactivityThreshold (newInstance uuid cfg w) = 120"
  "omitsWatchdogSettings cfg \<Longrightarrow> errorPatterns (newInstance uuid cfg w) = defaultErrorPatterns"
  "stats (newInstance uuid cfg w) =
     \<lparr>promptsExecuted = 0, tokensUsed = 0, uptime = 0, restartCount = 0, lastRestart = None\<rparr>"
  "authStatus (newInstance uuid cfg w) = Unknown"
  "truthy_str (logFile (newInstance uuid cfg w))"
  "ampSettings (newInstance uuid cfg w) \<noteq> None"
  "environment (config (newInstance uuid cfg w)) =
     (case cfg of None \<Rightarrow> None | Some c \<Rightarrow> environment c)"
  by (simp_all add: newInstance_def omitsWatchdogSettings_def Let_def truthy_str_def
      join_path_def emptyConfig_def split: option.splits)

text \<open>
  Claim C10, as the code has it. When \<open>createInstance\<close> returns an instance for a
  configuration that leaves out \<open>inactivityThreshold\<close> and \<open>errorPatterns\<close>, the instance
  has an inactivity threshold of 120 seconds, the built-in error patterns and all four
  counters at 0. Its \<open>authStatus\<close> is \<open>unknown\<close> when the authentication probe was
  delivered to the session and \<open>failed\<close> when it was not.
\<close>

theorem C10_created_defaults:
  assumes created: "createInstance uuid cfg w = (Inr inst, w')"
    and omitted: "omitsWatchdogSettings cfg"
  shows "inactivityThreshold inst = 120 \<and> errorPatterns inst = defaultErrorPatterns \<and>
         promptsExecuted (stats inst) = 0 \<and> tokensUsed (stats inst) = 0 \<and>
         uptime (stats inst) = 0 \<and> restartCount (stats inst) = 0 \<and>
         authStatus inst = (if probeDelivered cfg w then Unknown else Failed)"
proof -
  from created have se: "sessionExists w"
    by (auto simp: createInstance_def split: if_splits)
  obtain r1 w1 where c1: "fsCall ''/tmp/amp-manager'' w = (r1, w1)"
    by (cases "fsCall ''/tmp/amp-manager'' w")
  with created se obtain u1 where r1: "r1 = Inr u1"
    by (cases r1) (auto simp: createInstance_def)
  let ?pre = "newInstance uuid cfg w1"
  obtain r2 w2 where c2: "tmux [''new-window'', ''-t'', sessionName w1, ''-n'', name ?pre, ''-c'',
                    the (workingDirectory ?pre)] w1 = (r2, w2)"
    by (cases "tmux [''new-window'', ''-t'', sessionName w1, ''-n'', name ?pre, ''-c'',
                    the (workingDirectory ?pre)] w1")
  with created se c1 r1 obtain u2 where r2: "r2 = Inr u2"
    by (cases r2) (auto simp: createInstance_def Let_def)
  let ?inst = "newInstance uuid cfg w2"
  obtain r3 w3 where c3: "steps [setupInstanceEnvironment ?inst, startAmpCLI ?inst] w2 = (r3, w3)"
    by (cases "steps [setupInstanceEnvironment ?inst, startAmpCLI ?inst] w2")
  with created se c1 r1 c2 r2 obtain u3 where r3: "r3 = Inr u3"
    by (cases r3) (auto simp: createInstance_def Let_def)
  obtain inst' w4 where c4: "checkAuthStatus ?inst w3 = (inst', w4)"
    by (cases "checkAuthStatus ?inst w3")
  have inst: "inst = inst'"
    using created se c1 r1 c2 r2 c3 r3 c4
    by (auto simp: createInstance_def Let_def split: if_splits sum.splits prod.splits)
  have io1: "io w1 = drop 1 (io w)"
    using c1 by (auto simp: fsCall_eq drop_Suc)
  have io2: "io w2 = drop 1 (io w1)"
    using c2 by (auto simp: tmux_eq drop_Suc)
  obtain ra wa where ca: "setupInstanceEnvironment ?inst w2 = (ra, wa)"
    by (cases "setupInstanceEnvironment ?inst w2")
  with c3 r3 obtain ua where ra: "ra = Inr ua"
    by (cases ra) auto
  have cb: "startAmpCLI ?inst wa = (Inr u3, w3)"
    using c3 r3 ca ra by (auto split: sum.splits prod.splits)
  have ioa: "io wa = drop (4 + (case cfg of None \<Rightarrow> 0 | Some c \<Rightarrow>
               (case environment c of None \<Rightarrow> 0 | Some kvs \<Rightarrow> length kvs))) (io w2)"
    using setup_consumes [of ?inst w2 ua wa] ca ra
    by (simp add: newInstance_fields split: option.splits)
  have io3: "io w3 = drop 1 (io wa)"
    using startAmp_consumes [OF cb] .
  have io_all: "io w3 = drop (startupCalls cfg) (io w)"
    using io1 io2 ioa io3 by (simp add: startupCalls_def add.commute add.left_commute)
  have "inst' = (if next_ok w3 then ?inst\<lparr>status := Authenticating\<rparr>
      else ?inst\<lparr>status := Authenticating, authStatus := Failed\<rparr>)"
    using checkAuthStatus_result [of ?inst w3] c4 by simp
  then show ?thesis
    using inst omitted io_all
    by (simp add: newInstance_fields next_ok_take probeDelivered_def)
qed


text \<open>
  The claim as written fails when the probe is lost: \<open>createInstance\<close> still returns the
  instance, with \<open>authStatus = failed\<close>.
\<close>

theorem C10_created_counterexample:
  "omitsWatchdogSettings (Some emptyConfig) \<and>
   map_sum id authStatus (fst (createInstance plainId (Some emptyConfig) lostProbeWorld)) =
     Inr Failed"
  by (simp add: omitsWatchdogSettings_def lostProbeWorld_def world0_def plainId_def
      success_def failure_def eval_defs emptyConfig_def)

theorem C10_created_witness:
  "createInstance plainId (Some emptyConfig) world0 = (Inr plainInstance, plainWorld) \<and>
   omitsWatchdogSettings (Some emptyConfig) \<and>
   probeDelivered (Some emptyConfig) world0 \<and>
   inactivityThreshold plainInstance = 120 \<and>
   errorPatterns plainInstance = defaultErrorPatterns \<and>
   list_all (\<lambda>p. p \<in> set defaultErrorPatterns)
     [''Error:'', ''Out of free credits'', ''authentication failed''] \<and>
   promptsExecuted (stats plainInstance) = 0 \<and> tokensUsed (stats plainInstance) = 0 \<and>
   uptime (stats plainInstance) = 0 \<and> restartCount (stats plainInstance) = 0 \<and>
   authStatus plainInstance = Unknown"
proof -
  have om: "omitsWatchdogSettings (Some emptyConfig)"
    by (simp add: omitsWatchdogSettings_def emptyConfig_def)
  have pd: "probeDelivered (Some emptyConfig) world0"
    by (simp add: probeDelivered_def world0_def)
  have pats: "list_all (\<lambda>p. p \<in> set defaultErrorPatterns)
     [''Error:'', ''Out of free credits'', ''authentication failed'']"
    by (simp add: defaultErrorPatterns_def)
  show ?thesis
    using C10_created_defaults [OF plain_created om] om pd pats plain_created
    by simp
qed


section \<open>The error-pattern scan\<close>

lemma quiet_refl: "quiet w w"
  by (simp add: quiet_def restartsIn_def)

lemma quiet_trans: "quiet a b \<Longrightarrow> quiet b c \<Longrightarrow> quiet a c"
  by (auto simp: quiet_def restartsIn_def)

lemma quiet_steps: "(\<And>m. m \<in> set ms \<Longrightarrow> maintains quiet m) \<Longrightarrow> maintains quiet (steps ms)"
  by (rule maintains_steps [OF quiet_refl quiet_trans])

lemma quiet_same: "events w' = events w \<Longrightarrow> quiet w w'"
  by (simp add: quiet_def restartsIn_def)

lemma quiet_primitives [simp]:
  "maintains quiet (tmux args)"
  "maintains quiet (fsCall p)"
  "maintains quiet (ok (sleep ms))"
  "maintains quiet (ok (\<lambda>w. w))"
  "maintains quiet (ok (stopOutputMonitoring i))"
  "maintains quiet (ok (stopLogMonitoring i))"
  "maintains quiet (ok (startOutputMonitoring i))"
  "maintains quiet (ok (startLogMonitoring i))"
  "maintains quiet (ok (resetInstance i))"
  by (simp_all add: maintains_def tmux_eq fsCall_eq ok_def quiet_same sleep_def
      stopOutputMonitoring_def stopLogMonitoring_def startOutputMonitoring_def
      startLogMonitoring_def resetInstance_def updInstance_def split: option.splits)

lemma quiet_emit [simp]: "ty \<noteq> RestartTriggered \<Longrightarrow> maintains quiet (ok (emitEvent i ty d sev))"
  by (simp add: maintains_def ok_def quiet_def emitEvent_def restartsIn_def)

lemma quiet_setup [simp]: "maintains quiet (setupInstanceEnvironment inst)"
  unfolding maintains_def
proof
  fix w
  let ?ms = "map (\<lambda>envVar. tmux [''send-keys'', ''-t'', target w inst, envVar, ''Enter''])
               (envVars w inst) @
             [if ampSettings inst \<noteq> None
              then fsCall (join_path (settingsDir w) (name inst @ ''-settings.json''))
              else ok (\<lambda>w. w),
              ok (sleep 200)]"
  have "maintains quiet (steps ?ms)"
    by (rule quiet_steps) auto
  then show "quiet w (snd (setupInstanceEnvironment inst w))"
    by (simp add: maintains_def setupInstanceEnvironment_def)
qed

lemma quiet_startAmp [simp]: "maintains quiet (startAmpCLI inst)"
  unfolding maintains_def
proof
  fix w
  have "maintains quiet
          (steps [tmux [''send-keys'', ''-t'', target w inst, buildAmpCommand inst, ''Enter''],
                  ok (sleep 1000)])"
    by (rule quiet_steps) auto
  then show "quiet w (snd (startAmpCLI inst w))"
    by (simp add: maintains_def startAmpCLI_def)
qed

lemma quiet_withInstance:
  "(\<And>x. maintains quiet (f x)) \<Longrightarrow> maintains quiet (withInstance i f)"
  by (rule maintains_withInstance) (auto simp: quiet_refl)

lemma restart_events:
  "\<exists>tail. events (snd (restartInstance i reason w)) = events w @ tail \<and> restartsIn tail \<le> 1"
proof (cases "getInstance w i")
  case None
  then show ?thesis by (simp add: restartInstance_def restartsIn_def)
next
  case (Some inst)
  let ?ev = "\<lparr>instanceId = i, ev_timestamp = clock w, ev_type = RestartTriggered,
              ev_data = [(''reason'', case reason of None \<Rightarrow> DUndefined | Some r \<Rightarrow> DStr r)],
              ev_severity = Warn\<rparr>"
  let ?w1 = "emitEvent i RestartTriggered
               [(''reason'', case reason of None \<Rightarrow> DUndefined | Some r \<Rightarrow> DStr r)] Warn w"
  let ?rest = "tl (restartPrefix i reason (target w inst)) @ [ok (resetInstance i)] @ restartSuffix i"
  have eq: "restartInstance i reason w = steps ?rest ?w1"
    by (simp add: restart_split [OF Some] restartPrefix_def ok_def)
  have "maintains quiet (steps ?rest)"
    by (rule quiet_steps) (auto simp: restartPrefix_def restartSuffix_def intro!: quiet_withInstance)
  then have "quiet ?w1 (snd (steps ?rest ?w1))"
    by (simp add: maintains_def)
  then obtain tail where t: "events (snd (steps ?rest ?w1)) = events ?w1 @ tail" "restartsIn tail = 0"
    by (auto simp: quiet_def)
  have "events (snd (restartInstance i reason w)) = events w @ (?ev # tail)"
    using t eq by (simp add: emitEvent_def)
  moreover have "restartsIn (?ev # tail) \<le> 1"
    using t by (simp add: restartsIn_def)
  ultimately show ?thesis by blast
qed

lemma autoRestartEnabled_emit [simp]:
  "autoRestartEnabled i (emitEvent j ty d sev w) = autoRestartEnabled i w"
  by (simp add: autoRestartEnabled_def)

lemma scan_restarts:
  "\<exists>tail. events (snd (scanPatterns i recent ps w)) = events w @ tail \<and> restartsIn tail \<le> 1"
proof (induction ps arbitrary: w)
  case Nil
  then show ?case by (simp add: restartsIn_def)
next
  case (Cons p ps)
  show ?case
  proof (cases "includes_str recent p")
    case False
    then show ?thesis using Cons [of w] by simp
  next
    case True
    let ?w1 = "emitEvent i ErrorDetected
                 [(''pattern'', DStr p), (''output'', DStr (take 200 recent))] Err w"
    have ev1: "events ?w1 = events w @ [errorEvent i p recent (clock w)]"
      by (simp add: emitEvent_def errorEvent_def)
    show ?thesis
    proof (cases "autoRestartEnabled i w")
      case True
      obtain tail where
        "events (snd (restartInstance i (Some (''Error pattern detected: '' @ p)) ?w1)) = events ?w1 @ tail"
        "restartsIn tail \<le> 1"
        using restart_events by blast
      then have "events (snd (scanPatterns i recent (p # ps) w)) =
                   events w @ (errorEvent i p recent (clock w) # tail) \<and>
                 restartsIn (errorEvent i p recent (clock w) # tail) \<le> 1"
        using True \<open>includes_str recent p\<close> ev1
        by (simp add: Let_def restartsIn_def errorEvent_def)
      then show ?thesis by blast
    next
      case False
      obtain tail where
        "events (snd (scanPatterns i recent ps ?w1)) = events ?w1 @ tail" "restartsIn tail \<le> 1"
        using Cons [of ?w1] by blast
      then have "events (snd (scanPatterns i recent (p # ps) w)) =
                   events w @ (errorEvent i p recent (clock w) # tail) \<and>
                 restartsIn (errorEvent i p recent (clock w) # tail) \<le> 1"
        using False \<open>includes_str recent p\<close> ev1
        by (simp add: Let_def restartsIn_def errorEvent_def)
      then show ?thesis by blast
    qed
  qed
qed

lemma scan_first_match:
  assumes "find (includes_str recent) ps = Some p"
  shows "(\<exists>tail. events (snd (scanPatterns i recent ps w)) =
                  events w @ errorEvent i p recent (clock w) # tail) \<and>
         (autoRestartEnabled i w \<longrightarrow>
            scanPatterns i recent ps w =
              restartInstance i (Some (''Error pattern detected: '' @ p))
                (emitEvent i ErrorDetected
                   [(''pattern'', DStr p), (''output'', DStr (take 200 recent))] Err w))"
  using assms
proof (induction ps)
  case Nil
  then show ?case by simp
next
  case (Cons q ps)
  show ?case
  proof (cases "includes_str recent q")
    case False
    then show ?thesis using Cons by simp
  next
    case True
    then have pq: "p = q" using Cons.prems by simp
    let ?w1 = "emitEvent i ErrorDetected
                 [(''pattern'', DStr q), (''output'', DStr (take 200 recent))] Err w"
    have ev1: "events ?w1 = events w @ [errorEvent i q recent (clock w)]"
      by (simp add: emitEvent_def errorEvent_def)
    obtain t1 where t1: "events (snd (restartInstance i (Some (''Error pattern detected: '' @ q)) ?w1)) = events ?w1 @ t1"
      using restart_events by blast
    obtain t2 where t2: "events (snd (scanPatterns i recent ps ?w1)) = events ?w1 @ t2"
      using scan_restarts by blast
    show ?thesis
      using True pq ev1 t1 t2 by (simp add: Let_def)
  qed
qed

lemma scan_no_match:
  "find (includes_str recent) ps = None \<Longrightarrow> scanPatterns i recent ps w = (Inr (), w)"
  by (induction ps) (auto split: if_splits)

subsection \<open>Events of a sweep\<close>

lemma adds_refl: "adds P w w"
  by (simp add: adds_def)

lemma adds_trans: "adds P a b \<Longrightarrow> adds P b c \<Longrightarrow> adds P a c"
  by (auto simp: adds_def)

lemma adds_steps: "(\<And>m. m \<in> set ms \<Longrightarrow> maintains (adds P) m) \<Longrightarrow> maintains (adds P) (steps ms)"
  by (rule maintains_steps [OF adds_refl adds_trans])

lemma adds_same: "events w' = events w \<Longrightarrow> adds P w w'"
  by (simp add: adds_def)

lemma adds_primitives [simp]:
  "maintains (adds P) (tmux args)"
  "maintains (adds P) (fsCall p)"
  "maintains (adds P) (ok (sleep ms))"
  "maintains (adds P) (ok (\<lambda>w. w))"
  "maintains (adds P) (ok (stopOutputMonitoring i))"
  "maintains (adds P) (ok (stopLogMonitoring i))"
  "maintains (adds P) (ok (startOutputMonitoring i))"
  "maintains (adds P) (ok (startLogMonitoring i))"
  "maintains (adds P) (ok (resetInstance i))"
  "maintains (adds P) (ok (updInstance i f))"
  by (simp_all add: maintains_def tmux_eq fsCall_eq ok_def adds_same sleep_def
      stopOutputMonitoring_def stopLogMonitoring_def startOutputMonitoring_def
      startLogMonitoring_def resetInstance_def updInstance_def split: option.splits)

lemma adds_emit:
  "(\<And>t. P \<lparr>instanceId = i, ev_timestamp = t, ev_type = ty, ev_data = d, ev_severity = sev\<rparr>) \<Longrightarrow>
   maintains (adds P) (ok (emitEvent i ty d sev))"
  by (simp add: maintains_def ok_def adds_def emitEvent_def)

lemma adds_setup [simp]: "maintains (adds P) (setupInstanceEnvironment inst)"
  unfolding maintains_def
proof
  fix w
  let ?ms = "map (\<lambda>envVar. tmux [''send-keys'', ''-t'', target w inst, envVar, ''Enter''])
               (envVars w inst) @
             [if ampSettings inst \<noteq> None
              then fsCall (join_path (settingsDir w) (name inst @ ''-settings.json''))
              else ok (\<lambda>w. w),
              ok (sleep 200)]"
  have "maintains (adds P) (steps ?ms)"
    by (rule adds_steps) auto
  then show "adds P w (snd (setupInstanceEnvironment inst w))"
    by (simp add: maintains_def setupInstanceEnvironment_def)
qed

lemma adds_startAmp [simp]: "maintains (adds P) (startAmpCLI inst)"
  unfolding maintains_def
proof
  fix w
  have "maintains (adds P)
          (steps [tmux [''send-keys'', ''-t'', target w inst, buildAmpCommand inst, ''Enter''],
                  ok (sleep 1000)])"
    by (rule adds_steps) auto
  then show "adds P w (snd (startAmpCLI inst w))"
    by (simp add: maintains_def startAmpCLI_def)
qed

lemma adds_withInstance:
  "(\<And>x. maintains (adds P) (f x)) \<Longrightarrow> maintains (adds P) (withInstance i f)"
  by (rule maintains_withInstance) (auto simp: adds_refl)

lemma adds_restart:
  assumes trig: "\<And>t. P \<lparr>instanceId = j, ev_timestamp = t, ev_type = RestartTriggered,
                        ev_data = [(''reason'', case reason of None \<Rightarrow> DUndefined
                                                | Some r \<Rightarrow> DStr r)],
                        ev_severity = Warn\<rparr>"
    and chg: "\<And>t d. P \<lparr>instanceId = j, ev_timestamp = t, ev_type = StatusChanged,
                         ev_data = d, ev_severity = Info\<rparr>"
  shows "maintains (adds P) (restartInstance j reason)"
  unfolding maintains_def
proof
  fix w
  show "adds P w (snd (restartInstance j reason w))"
  proof (cases "getInstance w j")
    case None
    then show ?thesis by (simp add: restartInstance_def adds_refl)
  next
    case (Some inst)
    have "maintains (adds P)
            (steps (restartPrefix j reason (target w inst) @ [ok (resetInstance j)] @
                    restartSuffix j))"
      by (rule adds_steps)
         (auto simp: restartPrefix_def restartSuffix_def
               intro!: adds_withInstance adds_emit trig chg)
    then show ?thesis
      by (simp add: maintains_def restart_split [OF Some])
  qed
qed

lemma adds_scanPatterns:
  assumes err: "\<And>t d. P \<lparr>instanceId = j, ev_timestamp = t, ev_type = ErrorDetected,
                         ev_data = d, ev_severity = Err\<rparr>"
    and trig: "\<And>t r. P \<lparr>instanceId = j, ev_timestamp = t, ev_type = RestartTriggered,
                         ev_data = [(''reason'', DStr r)], ev_severity = Warn\<rparr>"
    and chg: "\<And>t d. P \<lparr>instanceId = j, ev_timestamp = t, ev_type = StatusChanged,
                         ev_data = d, ev_severity = Info\<rparr>"
  shows "adds P w (snd (scanPatterns j recent ps w))"
proof (induction ps arbitrary: w)
  case Nil
  show ?case by (simp add: adds_refl)
next
  case (Cons p ps)
  let ?w1 = "emitEvent j ErrorDetected
               [(''pattern'', DStr p), (''output'', DStr (take 200 recent))] Err w"
  have e: "adds P w ?w1"
    using adds_emit [of P j ErrorDetected _ Err, OF err] by (simp add: maintains_def ok_def)
  have r: "adds P ?w1 (snd (restartInstance j (Some (''Error pattern detected: '' @ p)) ?w1))"
    using adds_restart [of P j "Some (''Error pattern detected: '' @ p)"] trig chg
    by (simp add: maintains_def)
  show ?case
    using e r Cons [of w] Cons [of ?w1]
    by (auto simp: Let_def intro: adds_trans)
qed

lemma adds_checkForErrorPatterns:
  assumes "\<And>t d. P \<lparr>instanceId = j, ev_timestamp = t, ev_type = ErrorDetected,
                     ev_data = d, ev_severity = Err\<rparr>"
    and "\<And>t r. P \<lparr>instanceId = j, ev_timestamp = t, ev_type = RestartTriggered,
                     ev_data = [(''reason'', DStr r)], ev_severity = Warn\<rparr>"
    and "\<And>t d. P \<lparr>instanceId = j, ev_timestamp = t, ev_type = StatusChanged,
                     ev_data = d, ev_severity = Info\<rparr>"
  shows "adds P w (snd (checkForErrorPatterns j w))"
  using adds_scanPatterns [of P j, OF assms]
  by (simp add: checkForErrorPatterns_def adds_refl split: option.splits)

lemma adds_inactivityCheck:
  assumes ina: "\<And>t d. P \<lparr>instanceId = j, ev_timestamp = t, ev_type = InactivityDetected,
                         ev_data = d, ev_severity = Warn\<rparr>"
    and trig: "\<And>t r. P \<lparr>instanceId = j, ev_timestamp = t, ev_type = RestartTriggered,
                         ev_data = [(''reason'', DStr (''Inactivity detected: '' @ r))],
                         ev_severity = Warn\<rparr>"
    and chg: "\<And>t d. P \<lparr>instanceId = j, ev_timestamp = t, ev_type = StatusChanged,
                         ev_data = d, ev_severity = Info\<rparr>"
  shows "adds P w (snd (inactivityCheck now j w))"
proof (cases "getInstance w j")
  case None
  then show ?thesis by (simp add: inactivityCheck_def adds_refl)
next
  case (Some inst)
  let ?reason = "Some (''Inactivity detected: '' @
                       render_int ((now - lastActivity inst) div 1000) @ ''s'')"
  have r: "maintains (adds P)
             (\<lambda>w'. if autoRestartEnabled j w' then restartInstance j ?reason w'
                    else (Inr (), w'))"
    using adds_restart [of P j ?reason] trig chg
    by (simp add: maintains_def adds_refl)
  have "maintains (adds P)
          (steps [ok (updInstance j (\<lambda>x. x\<lparr>lastInactivityCheck := now\<rparr>)),
                  ok (emitEvent j InactivityDetected
                        [(''inactivitySeconds'', DSeconds (now - lastActivity inst)),
                         (''threshold'', DNum (inactivityThreshold inst))] Warn),
                  (\<lambda>w'. if autoRestartEnabled j w' then restartInstance j ?reason w'
                         else (Inr (), w'))])"
    using r by (intro adds_steps) (auto intro!: adds_emit ina)
  then show ?thesis
    using Some by (simp add: inactivityCheck_def Let_def maintains_def adds_refl)
qed

lemma patternRestarts_append [simp]:
  "patternRestarts i (xs @ ys) = patternRestarts i xs + patternRestarts i ys"
  by (simp add: patternRestarts_def)

lemma patternRestarts_le: "patternRestarts i evs \<le> restartsIn evs"
  by (induction evs) (auto simp: patternRestarts_def restartsIn_def patternRestart_def)

lemma patternRestarts_none: "list_all (\<lambda>e. \<not> patternRestart i e) evs \<Longrightarrow> patternRestarts i evs = 0"
  by (induction evs) (simp_all add: patternRestarts_def)

lemma other_instance:
  assumes "j \<noteq> i"
  shows "\<exists>tail. events (healthCheckOne now j w) = events w @ tail \<and> patternRestarts i tail = 0"
proof -
  let ?P = "\<lambda>e. \<not> patternRestart i e"
  have a: "adds ?P w (snd (inactivityCheck now j w))"
    using assms by (intro adds_inactivityCheck) (simp_all add: patternRestart_def)
  have b: "adds ?P w2 (snd (checkForErrorPatterns j w2))" for w2
    using assms by (intro adds_checkForErrorPatterns) (simp_all add: patternRestart_def)
  have "adds ?P w (healthCheckOne now j w)"
    using a b [of "snd (inactivityCheck now j w)"]
    by (auto simp: healthCheckOne_body split: prod.splits sum.splits intro: adds_trans)
  then show ?thesis
    by (auto simp: adds_def patternRestarts_none)
qed

lemma same_instance:
  "\<exists>tail. events (healthCheckOne now i w) = events w @ tail \<and> patternRestarts i tail \<le> 1"
proof -
  let ?P = "\<lambda>e. \<not> patternRestart i e"
  have "adds ?P w (snd (inactivityCheck now i w))"
    by (intro adds_inactivityCheck) (simp_all add: patternRestart_def)
  then obtain t1 where t1: "events (snd (inactivityCheck now i w)) = events w @ t1"
    "patternRestarts i t1 = 0"
    by (auto simp: adds_def patternRestarts_none)
  obtain r w2 where ic: "inactivityCheck now i w = (r, w2)"
    by (cases "inactivityCheck now i w")
  show ?thesis
  proof (cases r)
    case (Inl e)
    then show ?thesis using ic t1 by (simp add: healthCheckOne_body)
  next
    case (Inr u)
    obtain t2 where t2: "events (snd (checkForErrorPatterns i w2)) = events w2 @ t2"
      "restartsIn t2 \<le> 1"
    proof (cases "getInstance w2 i")
      case None
      then show ?thesis using that [of "[]"]
        by (simp add: checkForErrorPatterns_def restartsIn_def)
    next
      case (Some x)
      show ?thesis
      proof (cases "outputLines x = []")
        case True
        then show ?thesis using Some that [of "[]"]
          by (simp add: checkForErrorPatterns_def restartsIn_def)
      next
        case False
        then show ?thesis
          using Some that scan_restarts [of i "recentWindow x" "errorPatterns x" w2]
          by (auto simp: checkForErrorPatterns_def recentWindow_def)
      qed
    qed
    have "patternRestarts i t2 \<le> 1"
      using t2(2) patternRestarts_le [of i t2] by simp
    then show ?thesis
      using Inr ic t1 t2 by (simp add: healthCheckOne_body)
  qed
qed

lemma sweep_restarts:
  "distinct js \<Longrightarrow>
   \<exists>tail. events (fold (healthCheckOne now) js w) = events w @ tail \<and>
          patternRestarts i tail \<le> (if i \<in> set js then 1 else 0)"
proof (induction js arbitrary: w)
  case Nil
  show ?case by (simp add: patternRestarts_def)
next
  case (Cons j js)
  then have d: "distinct js" and nj: "j \<notin> set js" by simp_all
  obtain t2 where t2: "events (fold (healthCheckOne now) js (healthCheckOne now j w)) =
                         events (healthCheckOne now j w) @ t2"
    "patternRestarts i t2 \<le> (if i \<in> set js then 1 else 0)"
    using Cons.IH [OF d, of "healthCheckOne now j w"] by blast
  show ?case
  proof (cases "j = i")
    case True
    obtain t1 where "events (healthCheckOne now i w) = events w @ t1" "patternRestarts i t1 \<le> 1"
      using same_instance by blast
    then have "events (fold (healthCheckOne now) (j # js) w) = events w @ (t1 @ t2) \<and>
               patternRestarts i (t1 @ t2) \<le> (if i \<in> set (j # js) then 1 else 0)"
      using t2 True nj by simp
    then show ?thesis by blast
  next
    case False
    obtain t1 where "events (healthCheckOne now j w) = events w @ t1" "patternRestarts i t1 = 0"
      using other_instance [OF False] by blast
    then have "events (fold (healthCheckOne now) (j # js) w) = events w @ (t1 @ t2) \<and>
               patternRestarts i (t1 @ t2) \<le> (if i \<in> set (j # js) then 1 else 0)"
      using t2 False by simp
    then show ?thesis by blast
  qed
qed

lemma scan_facts:
  assumes a: "getInstance w i = Some inst" "outputLines inst \<noteq> []"
    "find (includes_str (recentWindow inst)) (errorPatterns inst) = Some p"
  shows "take 1 (newEvents w (snd (checkForErrorPatterns i w))) =
           [errorEvent i p (recentWindow inst) (clock w)]"
    and "autoRestart (config inst) \<noteq> Some False \<Longrightarrow>
         checkForErrorPatterns i w =
           restartInstance i (Some (''Error pattern detected: '' @ p))
             (emitEvent i ErrorDetected
                [(''pattern'', DStr p), (''output'', DStr (take 200 (recentWindow inst)))]
                Err w)"
proof -
  have eq: "checkForErrorPatterns i w = scanPatterns i (recentWindow inst) (errorPatterns inst) w"
    using a by (simp add: checkForErrorPatterns_def recentWindow_def)
  from a scan_first_match [of "recentWindow inst" "errorPatterns inst" p i w]
  obtain tail where "events (snd (scanPatterns i (recentWindow inst) (errorPatterns inst) w)) =
                  events w @ errorEvent i p (recentWindow inst) (clock w) # tail"
    by blast
  then show "take 1 (newEvents w (snd (checkForErrorPatterns i w))) =
        [errorEvent i p (recentWindow inst) (clock w)]"
    using eq by (simp add: newEvents_def)
  assume b: "autoRestart (config inst) \<noteq> Some False"
  have "autoRestartEnabled i w" using a b by (simp add: autoRestartEnabled_def)
  then show "checkForErrorPatterns i w =
           restartInstance i (Some (''Error pattern detected: '' @ p))
             (emitEvent i ErrorDetected
                [(''pattern'', DStr p), (''output'', DStr (take 200 (recentWindow inst)))]
                Err w)"
    using a eq scan_first_match [of "recentWindow inst" "errorPatterns inst" p i w] by simp
qed

text \<open>  Claim C7, as the code has it, for the sweep \<open>checkInstanceHealth w\<close>. The ids of the
  registered instances are the keys of a \<open>Map\<close>, so they are distinct.
  \<^item> The events of one sweep hold at most one restart of instance \<open>i\<close> made by the
    error-pattern scan.
  \<^item> Let \<open>i\<close> be visited after the instances \<open>before\<close>, and let the inactivity part of its
    loop body end with \<open>r\<close> in state \<open>w2\<close>. When \<open>r\<close> is an error the scan is skipped: the
    sweep goes on with the other instances from \<open>w2\<close>. Otherwise it goes on from the state
    that the scan leaves when started in \<open>w2\<close>.
  \<^item> When the instance has output in \<open>w2\<close> and \<open>p\<close> is the first of its patterns found in
    the recent output, the first event of the scan is \<open>error_detected\<close> for \<open>p\<close>; and unless
    \<open>autoRestart\<close> is \<open>false\<close>, the scan is that event followed by the restart for \<open>p\<close> and
    nothing else, so no later pattern is looked at.\<close>

theorem C7_sweep_scans_once:
  "(distinct (map fst (instances w)) \<longrightarrow>
      patternRestarts i (newEvents w (checkInstanceHealth w)) \<le> 1) \<and>
   (map fst (instances w) = before @ i # after \<and>
    inactivityCheck (clock w) i (fold (healthCheckOne (clock w)) before w) = (r, w2) \<longrightarrow>
      checkInstanceHealth w =
        fold (healthCheckOne (clock w)) after
          (case r of Inl e \<Rightarrow> w2 | Inr u \<Rightarrow> snd (checkForErrorPatterns i w2)) \<and>
      (getInstance w2 i = Some inst \<and> outputLines inst \<noteq> [] \<and>
       find (includes_str (recentWindow inst)) (errorPatterns inst) = Some p \<longrightarrow>
         take 1 (newEvents w2 (snd (checkForErrorPatterns i w2))) =
           [errorEvent i p (recentWindow inst) (clock w2)] \<and>
         (autoRestart (config inst) \<noteq> Some False \<longrightarrow>
            checkForErrorPatterns i w2 =
              restartInstance i (Some (''Error pattern detected: '' @ p))
                (emitEvent i ErrorDetected
                   [(''pattern'', DStr p),
                    (''output'', DStr (take 200 (recentWindow inst)))] Err w2))))"
proof (intro conjI impI)
  assume "distinct (map fst (instances w))"
  then obtain tail where
    "events (fold (healthCheckOne (clock w)) (map fst (instances w)) w) = events w @ tail"
    "patternRestarts i tail \<le> (if i \<in> set (map fst (instances w)) then 1 else 0)"
    using sweep_restarts [of "map fst (instances w)" "clock w" w i] by blast
  then show "patternRestarts i (newEvents w (checkInstanceHealth w)) \<le> 1"
    by (simp add: checkInstanceHealth_def newEvents_def split: if_splits)
next
  assume a: "map fst (instances w) = before @ i # after \<and>
    inactivityCheck (clock w) i (fold (healthCheckOne (clock w)) before w) = (r, w2)"
  then show "checkInstanceHealth w =
        fold (healthCheckOne (clock w)) after
          (case r of Inl e \<Rightarrow> w2 | Inr u \<Rightarrow> snd (checkForErrorPatterns i w2))"
    by (cases r) (simp_all add: checkInstanceHealth_def healthCheckOne_body)
next
  assume "getInstance w2 i = Some inst \<and> outputLines inst \<noteq> [] \<and>
       find (includes_str (recentWindow inst)) (errorPatterns inst) = Some p"
  then show "take 1 (newEvents w2 (snd (checkForErrorPatterns i w2))) =
           [errorEvent i p (recentWindow inst) (clock w2)]"
    using scan_facts(1) [of w2 i inst p] by simp
next
  assume "getInstance w2 i = Some inst \<and> outputLines inst \<noteq> [] \<and>
       find (includes_str (recentWindow inst)) (errorPatterns inst) = Some p"
    and "autoRestart (config inst) \<noteq> Some False"
  then show "checkForErrorPatterns i w2 =
              restartInstance i (Some (''Error pattern detected: '' @ p))
                (emitEvent i ErrorDetected
                   [(''pattern'', DStr p),
                    (''output'', DStr (take 200 (recentWindow inst)))] Err w2)"
    using scan_facts(2) [of w2 i inst p] by simp
qed

subsection \<open>The examples\<close>

lemma errored_fields [simp]:
  "getInstance erroredWorld plainId = Some erroredInstance"
  "clock erroredWorld = 1700000003230"
  by (simp_all add: erroredWorld_def erroredInstance_def outputMonitorTick_def
      getInstanceOutput_def runTmuxCommand_def externalCall_def capturedError_def Let_def
      trim_def is_space_def blank_def target_def getInstance_def updInstance_def
      busyInstance_def plainInstance_def)

lemma errored_instances: "instances erroredWorld = [(plainId, erroredInstance)]"
  by (simp add: erroredWorld_def erroredInstance_def outputMonitorTick_def
      getInstanceOutput_def runTmuxCommand_def externalCall_def capturedError_def Let_def
      trim_def is_space_def blank_def target_def getInstance_def updInstance_def
      busyInstance_def plainInstance_def)

lemma errored_window:
  "recentWindow erroredInstance = ''$ ls Error: connection refused''"
  "find (includes_str (recentWindow erroredInstance)) (errorPatterns erroredInstance) =
     Some ''Error:''"
  "outputLines erroredInstance \<noteq> []"
  "autoRestart (config erroredInstance) \<noteq> Some False"
  by (simp_all add: recentWindow_def erroredInstance_def slice_last_def busyInstance_def
      plainInstance_def defaultErrorPatterns_def emptyConfig_def)

lemma deadPane_sweep:
  "map ev_type (newEvents deadPaneWorld (checkInstanceHealth deadPaneWorld)) =
     [InactivityDetected, RestartTriggered]"
  "getInstance (checkInstanceHealth deadPaneWorld) plainId =
     Some (erroredInstance\<lparr>lastInactivityCheck := 1700000203230\<rparr>)"
  by (simp_all add: deadPaneWorld_def checkInstanceHealth_def healthCheckOne_def
      inactivityCheck_def errored_instances sleep_def getInstance_def Let_def ok_def
      restartInstance_def tmux_eq next_ok_def failure_def autoRestartEnabled_def
      updInstance_def emitEvent_def newEvents_def stopOutputMonitoring_def
      stopLogMonitoring_def popped_def
      erroredInstance_def busyInstance_def plainInstance_def emptyConfig_def)

text \<open>  Claim C7 as stated fails when the inactivity restart of the same sweep is rejected. The
  instance has \<open>Error: connection refused\<close> in its recent output, \<open>Error:\<close> is one of its
  patterns, it has been inactive for 200 seconds and \<open>tmux\<close> rejects the interrupt. The
  sweep emits \<open>inactivity_detected\<close> and \<open>restart_triggered\<close> and nothing else: the rejection
  leaves the \<open>try\<close> block of the loop body, which holds the scan as well, so no
  \<open>error_detected\<close> is emitted although the output is still there.\<close>

theorem C7_skipped_scan_counterexample:
  "getInstance deadPaneWorld plainId = Some erroredInstance \<and>
   outputLines erroredInstance = [''$ ls'', ''Error: connection refused''] \<and>
   find (includes_str (recentWindow erroredInstance)) (errorPatterns erroredInstance) =
     Some ''Error:'' \<and>
   io deadPaneWorld = [failure] \<and>
   map ev_type (newEvents deadPaneWorld (checkInstanceHealth deadPaneWorld)) =
     [InactivityDetected, RestartTriggered] \<and>
   getInstance (checkInstanceHealth deadPaneWorld) plainId =
     Some (erroredInstance\<lparr>lastInactivityCheck := 1700000203230\<rparr>)"
proof -
  have 1: "getInstance deadPaneWorld plainId = Some erroredInstance"
    by (simp add: deadPaneWorld_def sleep_def getInstance_def errored_instances)
  have 2: "outputLines erroredInstance = [''$ ls'', ''Error: connection refused'']"
    by (simp add: erroredInstance_def)
  have 3: "io deadPaneWorld = [failure]"
    by (simp add: deadPaneWorld_def)
  show ?thesis
    using 1 2 3 errored_window(2) deadPane_sweep by blast
qed

text \<open>The theorem for C7 at a sweep that finds \<open>Error:\<close> in the output of the only instance, and
  at the sweep of the counterexample.\<close>

theorem C7_sweep_scans_once_witness:
  "distinct (map fst (instances erroredWorld)) \<and>
   map fst (instances erroredWorld) = [] @ plainId # [] \<and>
   inactivityCheck (clock erroredWorld) plainId (fold (healthCheckOne (clock erroredWorld)) [] erroredWorld) =
     (Inr (), erroredWorld) \<and>
   getInstance erroredWorld plainId = Some erroredInstance \<and>
   outputLines erroredInstance \<noteq> [] \<and>
   find (includes_str (recentWindow erroredInstance)) (errorPatterns erroredInstance) =
     Some ''Error:'' \<and>
   autoRestart (config erroredInstance) \<noteq> Some False \<and>
   patternRestarts plainId (newEvents erroredWorld (checkInstanceHealth erroredWorld)) \<le> 1 \<and>
   checkInstanceHealth erroredWorld = snd (checkForErrorPatterns plainId erroredWorld) \<and>
   take 1 (newEvents erroredWorld (snd (checkForErrorPatterns plainId erroredWorld))) =
     [errorEvent plainId ''Error:'' ''$ ls Error: connection refused'' 1700000003230] \<and>
   checkForErrorPatterns plainId erroredWorld =
     restartInstance plainId (Some ''Error pattern detected: Error:'')
       (emitEvent plainId ErrorDetected
          [(''pattern'', DStr ''Error:''),
           (''output'', DStr ''$ ls Error: connection refused'')] Err erroredWorld) \<and>
   map fst (instances deadPaneWorld) = [] @ plainId # [] \<and>
   (\<exists>args w2.
      inactivityCheck (clock deadPaneWorld) plainId
        (fold (healthCheckOne (clock deadPaneWorld)) [] deadPaneWorld) = (Inl (TmuxFailed args), w2) \<and>
      checkInstanceHealth deadPaneWorld = w2)"
proof -
  have d: "distinct (map fst (instances erroredWorld))"
    by (simp add: errored_instances)
  have ids: "map fst (instances erroredWorld) = [] @ plainId # []"
    by (simp add: errored_instances)
  have reg: "getInstance erroredWorld plainId = Some erroredInstance"
    by simp
  have ic: "inactivityCheck (clock erroredWorld) plainId
              (fold (healthCheckOne (clock erroredWorld)) [] erroredWorld) = (Inr (), erroredWorld)"
    by (simp add: inactivityCheck_def Let_def erroredInstance_def busyInstance_def
        plainInstance_def)
  note sweep = C7_sweep_scans_once
    [of erroredWorld plainId "[]" "[]" "Inr ()" erroredWorld erroredInstance "''Error:''"]
  have one: "patternRestarts plainId (newEvents erroredWorld (checkInstanceHealth erroredWorld)) \<le> 1"
    using sweep d by blast
  have body: "checkInstanceHealth erroredWorld =
        fold (healthCheckOne (clock erroredWorld)) []
          (case (Inr () :: exn + unit) of Inl e \<Rightarrow> erroredWorld
           | Inr u \<Rightarrow> snd (checkForErrorPatterns plainId erroredWorld))"
    using sweep ids ic by blast
  then have body': "checkInstanceHealth erroredWorld = snd (checkForErrorPatterns plainId erroredWorld)"
    by simp
  have scan: "take 1 (newEvents erroredWorld (snd (checkForErrorPatterns plainId erroredWorld))) =
           [errorEvent plainId ''Error:'' (recentWindow erroredInstance) (clock erroredWorld)] \<and>
         (autoRestart (config erroredInstance) \<noteq> Some False \<longrightarrow>
            checkForErrorPatterns plainId erroredWorld =
              restartInstance plainId (Some (''Error pattern detected: '' @ ''Error:''))
                (emitEvent plainId ErrorDetected
                   [(''pattern'', DStr ''Error:''),
                    (''output'', DStr (take 200 (recentWindow erroredInstance)))] Err erroredWorld))"
    using sweep ids ic reg errored_window(2,3) by blast
  have first: "take 1 (newEvents erroredWorld (snd (checkForErrorPatterns plainId erroredWorld))) =
     [errorEvent plainId ''Error:'' ''$ ls Error: connection refused'' 1700000003230]"
    using scan by (simp add: errored_window(1))
  have whole: "checkForErrorPatterns plainId erroredWorld =
     restartInstance plainId (Some ''Error pattern detected: Error:'')
       (emitEvent plainId ErrorDetected
          [(''pattern'', DStr ''Error:''),
           (''output'', DStr ''$ ls Error: connection refused'')] Err erroredWorld)"
    using scan errored_window(4) by (simp add: errored_window(1))
  have ids2: "map fst (instances deadPaneWorld) = [] @ plainId # []"
    by (simp add: deadPaneWorld_def sleep_def errored_instances)
  obtain r w2 where ic2: "inactivityCheck (clock deadPaneWorld) plainId
        (fold (healthCheckOne (clock deadPaneWorld)) [] deadPaneWorld) = (r, w2)"
    by (cases "inactivityCheck (clock deadPaneWorld) plainId
        (fold (healthCheckOne (clock deadPaneWorld)) [] deadPaneWorld)")
  have "\<exists>args. fst (inactivityCheck (clock deadPaneWorld) plainId
        (fold (healthCheckOne (clock deadPaneWorld)) [] deadPaneWorld)) = Inl (TmuxFailed args)"
    by (simp add: deadPaneWorld_def inactivityCheck_def errored_instances sleep_def
        getInstance_def Let_def ok_def restartInstance_def tmux_eq next_ok_def failure_def
        autoRestartEnabled_def updInstance_def emitEvent_def stopOutputMonitoring_def
        stopLogMonitoring_def popped_def target_def
        erroredInstance_def busyInstance_def plainInstance_def emptyConfig_def)
  then obtain args where r: "r = Inl (TmuxFailed args)"
    using ic2 by auto
  have "checkInstanceHealth deadPaneWorld =
        fold (healthCheckOne (clock deadPaneWorld)) []
          (case r of Inl e \<Rightarrow> w2 | Inr u \<Rightarrow> snd (checkForErrorPatterns plainId w2))"
    using C7_sweep_scans_once [of deadPaneWorld plainId "[]" "[]" r w2] ids2 ic2 by blast
  then have skipped: "checkInstanceHealth deadPaneWorld = w2"
    using r by simp
  have ex: "\<exists>args w2.
      inactivityCheck (clock deadPaneWorld) plainId
        (fold (healthCheckOne (clock deadPaneWorld)) [] deadPaneWorld) = (Inl (TmuxFailed args), w2) \<and>
      checkInstanceHealth deadPaneWorld = w2"
    using ic2 r skipped by blast
  show ?thesis
    using d ids reg ic errored_window(2,3,4) one body' first whole ids2 ex by blast
qed


section \<open>The inactivity throttle\<close>

lemma maintainsI: "(\<And>w. R w (snd (m w))) \<Longrightarrow> maintains R m"
  by (simp add: maintains_def)

lemma maintainsD: "maintains R m \<Longrightarrow> R w (snd (m w))"
  by (simp add: maintains_def)

lemma later_refl: "later i w w"
  by (simp add: later_def split: option.splits)

lemma later_trans: "later i a b \<Longrightarrow> later i b c \<Longrightarrow> later i a c"
  by (auto simp: later_def split: option.splits)

lemma fresh_later: "fresh L i w \<Longrightarrow> later i w w' \<Longrightarrow> fresh L i w'"
  by (auto simp: fresh_def later_def split: option.splits)

lemma later_steps:
  "(\<And>m. m \<in> set ms \<Longrightarrow> maintains (later i) m) \<Longrightarrow> maintains (later i) (steps ms)"
  by (rule maintains_steps [OF later_refl later_trans])

lemma later_same: "instances w' = instances w \<Longrightarrow> clock w \<le> clock w' \<Longrightarrow> later i w w'"
  by (simp add: later_def getInstance_def split: option.splits)

lemma later_upd:
  "(\<And>x. lastInactivityCheck (f x) = lastInactivityCheck x) \<Longrightarrow> later i w (updInstance j f w)"
  by (auto simp: later_def split: option.splits)

lemma later_popped:
  "later i w (popped w)"
  "later i w (popped (w\<lparr>sent := x\<rparr>))"
  by (auto simp: later_def popped_def getInstance_def split: option.splits list.splits)

lemma later_primitives [simp]:
  "maintains (later i) (tmux args)"
  "maintains (later i) (fsCall p)"
  "maintains (later i) (ok (sleep ms))"
  "maintains (later i) (ok (emitEvent j ty d sev))"
  "maintains (later i) (ok (\<lambda>w. w))"
  "maintains (later i) (ok (stopOutputMonitoring j))"
  "maintains (later i) (ok (stopLogMonitoring j))"
  "maintains (later i) (ok (startOutputMonitoring j))"
  "maintains (later i) (ok (startLogMonitoring j))"
  by (simp_all add: maintains_def tmux_eq fsCall_eq ok_def later_same later_popped sleep_def
      emitEvent_def stopOutputMonitoring_def stopLogMonitoring_def startOutputMonitoring_def
      startLogMonitoring_def split: option.splits)

lemma later_ok_upd:
  "(\<And>x. lastInactivityCheck (f x) = lastInactivityCheck x) \<Longrightarrow>
   maintains (later i) (ok (updInstance j f))"
  by (simp add: maintains_def ok_def later_upd)

lemma later_reset [simp]: "maintains (later i) (ok (resetInstance j))"
  by (auto simp: maintains_def ok_def later_def resetInstance_def split: option.splits)

lemma later_setup [simp]: "maintains (later i) (setupInstanceEnvironment inst)"
proof (rule maintainsI)
  fix w
  let ?ms = "map (\<lambda>envVar. tmux [''send-keys'', ''-t'', target w inst, envVar, ''Enter''])
               (envVars w inst) @
             [if ampSettings inst \<noteq> None
              then fsCall (join_path (settingsDir w) (name inst @ ''-settings.json''))
              else ok (\<lambda>w. w),
              ok (sleep 200)]"
  have "maintains (later i) (steps ?ms)"
    by (rule later_steps) auto
  then show "later i w (snd (setupInstanceEnvironment inst w))"
    by (simp add: maintains_def setupInstanceEnvironment_def)
qed

lemma later_startAmp [simp]: "maintains (later i) (startAmpCLI inst)"
proof (rule maintainsI)
  fix w
  have "maintains (later i)
          (steps [tmux [''send-keys'', ''-t'', target w inst, buildAmpCommand inst, ''Enter''],
                  ok (sleep 1000)])"
    by (rule later_steps) auto
  then show "later i w (snd (startAmpCLI inst w))"
    by (simp add: maintains_def startAmpCLI_def)
qed

lemma later_withInstance:
  "(\<And>x. maintains (later i) (f x)) \<Longrightarrow> maintains (later i) (withInstance j f)"
  by (rule maintains_withInstance) (auto simp: later_refl)

lemma later_restart [simp]: "maintains (later i) (restartInstance j reason)"
proof (rule maintainsI)
  fix w
  show "later i w (snd (restartInstance j reason w))"
  proof (cases "getInstance w j")
    case None
    then show ?thesis by (simp add: restartInstance_def later_refl)
  next
    case (Some inst)
    have "maintains (later i)
            (steps (restartPrefix j reason (target w inst) @ [ok (resetInstance j)] @
                    restartSuffix j))"
      by (rule later_steps)
         (auto simp: restartPrefix_def restartSuffix_def intro!: later_withInstance)
    then show ?thesis
      using restart_split [OF Some] by (simp add: maintains_def)
  qed
qed

lemma later_sendLines [simp]: "maintains (later i) (sendLines tgt ls)"
proof (induction tgt ls rule: sendLines.induct [where P = "\<lambda>tgt ls w. maintains (later i) (sendLines tgt ls)"])
  case (1 tgt w)
  show ?case by (simp add: maintains_def later_refl)
next
  case (2 tgt l w)
  have "maintains (later i) (steps [tmux [''send-keys'', ''-t'', tgt, l],
            tmux [''send-keys'', ''-t'', tgt, ''Enter'']])"
    by (rule later_steps) auto
  then show ?case by (simp add: maintains_def)
next
  case (3 tgt l l' ls w)
  have "maintains (later i) (steps [tmux [''send-keys'', ''-t'', tgt, l],
            tmux [''send-keys'', ''-t'', tgt, [CHR '' '', CHR 0x5C], ''Enter''],
            ok (sleep 100),
            sendLines tgt (l' # ls)])"
    by (rule later_steps) (use 3 in auto)
  then show ?case by (simp add: maintains_def)
qed


lemma later_waitForApproval: "later i w (waitForApproval j prompt w)"
proof -
  have "later i w (updInstance j (\<lambda>inst. inst\<lparr>status := WaitingApproval,
          pendingCommand := Some \<lparr>command = prompt, requiresApproval = True,
                                   timestamp = clock w\<rparr>\<rparr>) w)" (is "later i w ?w1")
    by (rule later_upd) simp
  moreover have "later i ?w1 (emitEvent j ApprovalRequired [(''prompt'', DStr prompt)] Warn ?w1)"
    by (simp add: later_same emitEvent_def)
  ultimately show ?thesis
    unfolding waitForApproval_def by (rule later_trans)
qed

lemma later_executePrompt [simp]: "maintains (later i) (executePrompt j prompt)"
proof (rule maintainsI)
  fix w
  show "later i w (snd (executePrompt j prompt w))"
  proof (cases "getInstance w j")
    case None
    then show ?thesis by (simp add: executePrompt_def later_refl)
  next
    case (Some inst)
    let ?ms = "[ok (updInstance j (\<lambda>x. x\<lparr>status := Running, currentPrompt := Some prompt,
                       lastActivity := clock w,
                       stats := (stats x)\<lparr>promptsExecuted := Suc (promptsExecuted (stats x))\<rparr>\<rparr>)),
                 ok (emitEvent j PromptSent [(''prompt'', DStr (take 100 prompt))] Info),
                 sendLines (target w inst) (split_on CHR 0x0A prompt),
                 ok (emitEvent j CommandExecuted [(''prompt'', DStr (take 100 prompt))] Info)]"
    have "maintains (later i) (steps ?ms)"
      by (rule later_steps) (auto intro!: later_ok_upd)
    then have "later i w (snd (steps ?ms w))"
      by (rule maintainsD)
    then show ?thesis
      using Some by (simp add: executePrompt_def Let_def later_waitForApproval)
  qed
qed

lemma later_sendPrompt [simp]: "maintains (later i) (sendPrompt j prompt)"
  by (rule maintainsI)
     (simp add: sendPrompt_def later_refl later_waitForApproval maintainsD split: option.splits)

lemma later_approveCommand [simp]: "maintains (later i) (approveCommand j)"
proof (rule maintainsI)
  fix w
  show "later i w (snd (approveCommand j w))"
  proof (cases "getInstance w j")
    case None
    then show ?thesis by (simp add: approveCommand_def later_refl)
  next
    case (Some inst)
    show ?thesis
    proof (cases "pendingCommand inst")
      case None
      then show ?thesis using Some by (simp add: approveCommand_def later_refl)
    next
      case (Some pc)
      have "later i w (updInstance j (\<lambda>x. x\<lparr>pendingCommand := None\<rparr>) w)" (is "later i w ?w1")
        by (rule later_upd) simp
      moreover have "later i ?w1 (snd (executePrompt j (command pc) ?w1))"
        by (rule maintainsD) simp
      ultimately show ?thesis
        using \<open>getInstance w j = Some inst\<close> Some
        by (simp add: approveCommand_def) (rule later_trans)
    qed
  qed
qed

lemma later_cancelCommand [simp]: "maintains (later i) (cancelCommand j)"
proof (rule maintainsI)
  fix w
  have "later i w (updInstance j (\<lambda>x. x\<lparr>pendingCommand := None, status := Idle\<rparr>) w)"
    (is "later i w ?w1")
    by (rule later_upd) simp
  moreover have "later i ?w1 (emitEvent j StatusChanged [(''status'', DStr ''idle'')] Info ?w1)"
    by (simp add: later_same emitEvent_def)
  ultimately have "later i w (emitEvent j StatusChanged [(''status'', DStr ''idle'')] Info ?w1)"
    by (rule later_trans)
  then show "later i w (snd (cancelCommand j w))"
    by (simp add: cancelCommand_def later_refl split: option.splits)
qed

lemma getInstance_mapDelete:
  "getInstance (mapDelete j w) i = (if i = j then None else getInstance w i)"
proof -
  have "map_of (filter (\<lambda>(k, v). k \<noteq> j) xs) i = (if i = j then None else map_of xs i)" for xs
    by (induction xs) auto
  from this [of "instances w"] show ?thesis
    by (simp add: getInstance_def mapDelete_def)
qed

lemma later_mapDelete: "later i w (mapDelete j w)"
proof -
  have "clock (mapDelete j w) = clock w"
    by (simp add: mapDelete_def)
  then show ?thesis
    by (auto simp: later_def getInstance_mapDelete split: option.splits)
qed

lemma later_removeInstance [simp]: "maintains (later i) (removeInstance j)"
proof (rule maintainsI)
  fix w
  show "later i w (snd (removeInstance j w))"
  proof (cases "getInstance w j")
    case None
    then show ?thesis by (simp add: removeInstance_def later_refl)
  next
    case (Some inst)
    let ?w1 = "stopLogMonitoring j (stopOutputMonitoring j
                 (emitEvent j StatusChanged [(''status'', DStr ''stopped'')] Info w))"
    let ?w2 = "snd (tmux [''kill-window'', ''-t'', target w inst] ?w1)"
    have a: "later i w ?w1"
      by (simp add: later_same emitEvent_def stopLogMonitoring_def stopOutputMonitoring_def)
    have b: "later i ?w1 ?w2"
      by (rule maintainsD) simp
    have c: "later i ?w2 (mapDelete j ?w2)"
      by (rule later_mapDelete)
    show ?thesis
      using Some later_trans [OF later_trans [OF a b] c]
      by (simp add: removeInstance_def Let_def)
  qed
qed

lemma later_scanPatterns [simp]: "maintains (later i) (scanPatterns j recent ps)"
proof (rule maintainsI)
  fix w
  show "later i w (snd (scanPatterns j recent ps w))"
  proof (induction ps arbitrary: w)
    case Nil
    then show ?case by (simp add: later_refl)
  next
    case (Cons p ps)
    let ?w1 = "emitEvent j ErrorDetected
                 [(''pattern'', DStr p), (''output'', DStr (take 200 recent))] Err w"
    have a: "later i w ?w1"
      by (simp add: later_same emitEvent_def)
    have b: "later i ?w1 (snd (restartInstance j (Some (''Error pattern detected: '' @ p)) ?w1))"
      by (rule maintainsD) simp
    show ?case
      using Cons [of w] later_trans [OF a Cons [of ?w1]] later_trans [OF a b]
      by (simp add: Let_def)
  qed
qed

lemma later_checkForErrorPatterns [simp]: "maintains (later i) (checkForErrorPatterns j)"
  by (rule maintainsI)
     (simp add: checkForErrorPatterns_def later_refl maintainsD split: option.splits)

lemma later_inactivityCheck [simp]: "maintains (later i) (inactivityCheck now j)"
proof (rule maintainsI)
  fix w
  show "later i w (snd (inactivityCheck now j w))"
  proof (cases "getInstance w j")
    case None
    then show ?thesis by (simp add: inactivityCheck_def later_refl)
  next
    case (Some inst)
    show ?thesis
    proof (cases "now - lastInactivityCheck inst > 60000 \<and>
                  now - lastActivity inst > inactivityThreshold inst * 1000")
      case False
      then show ?thesis using Some by (auto simp: inactivityCheck_def Let_def later_refl)
    next
      case True
      let ?w1 = "updInstance j (\<lambda>x. x\<lparr>lastInactivityCheck := now\<rparr>) w"
      let ?rest = "[ok (emitEvent j InactivityDetected
                            [(''inactivitySeconds'', DSeconds (now - lastActivity inst)),
                             (''threshold'', DNum (inactivityThreshold inst))] Warn),
                      (\<lambda>w'. if autoRestartEnabled j w'
                             then restartInstance j
                                    (Some (''Inactivity detected: '' @
                                           render_int ((now - lastActivity inst) div 1000) @ ''s'')) w'
                             else (Inr (), w'))]"
      have a: "later i w ?w1"
        using Some True by (auto simp: later_def split: option.splits)
      have "maintains (later i)
              (\<lambda>w'. if autoRestartEnabled j w'
                     then restartInstance j
                            (Some (''Inactivity detected: '' @
                                   render_int ((now - lastActivity inst) div 1000) @ ''s'')) w'
                     else (Inr (), w'))"
        by (rule maintainsI) (simp add: later_refl maintainsD)
      then have "maintains (later i) (steps ?rest)"
        by (intro later_steps) auto
      then have b: "later i ?w1 (snd (steps ?rest ?w1))"
        by (rule maintainsD)
      have "inactivityCheck now j w = steps ?rest ?w1"
        using Some True by (simp add: inactivityCheck_def Let_def ok_def)
      then show ?thesis
        using later_trans [OF a b] by simp
    qed
  qed
qed

lemma later_healthCheckOne: "later i w (healthCheckOne now j w)"
proof -
  have "maintains (later i) (steps [inactivityCheck now j, checkForErrorPatterns j])"
    by (rule later_steps) auto
  then show ?thesis
    by (simp add: healthCheckOne_def maintains_def)
qed

lemma later_fold:
  "(\<And>x w. later i w (f x w)) \<Longrightarrow> later i w (fold f xs w)"
proof (induction xs arbitrary: w)
  case Nil
  then show ?case by (simp add: later_refl)
next
  case (Cons x xs)
  have "later i w (f x w)" using Cons.prems .
  moreover have "later i (f x w) (fold f xs (f x w))" using Cons by blast
  ultimately show ?case by (simp add: later_trans)
qed

lemma later_checkInstanceHealth: "later i w (checkInstanceHealth w)"
  unfolding checkInstanceHealth_def by (rule later_fold) (rule later_healthCheckOne)

lemma later_getInstanceOutput [simp]: "maintains (later i) (getInstanceOutput j)"
  by (rule maintainsI)
     (auto simp: getInstanceOutput_def runTmuxCommand_def externalCall_def Let_def later_refl
        later_def getInstance_def split: option.splits list.splits)

lemma later_outputMonitorTick: "later i w (outputMonitorTick j w)"
proof (cases "j \<in> set (outputMonitors w)")
  case False
  then show ?thesis by (simp add: outputMonitorTick_def later_refl)
next
  case True
  obtain r w1 where g: "getInstanceOutput j w = (r, w1)"
    by (cases "getInstanceOutput j w")
  have a: "later i w w1"
    using maintainsD [where R = "later i" and m = "getInstanceOutput j" and w = w] g by simp
  have b: "later i w1 (stopOutputMonitoring j w1)"
    by (simp add: later_same stopOutputMonitoring_def)
  have c: "later i w1 (updInstance j (\<lambda>x. x\<lparr>outputLines := out, lastActivity := clock w1\<rparr>) w1)" for out
    by (rule later_upd) simp
  show ?thesis
    using True g a later_trans [OF a b] later_trans [OF a c]
    by (simp add: outputMonitorTick_def split: sum.splits option.splits)
qed

lemma later_setAuth: "later i w (setAuth j a st label sev w)"
proof -
  have "later i w (updInstance j (\<lambda>x. x\<lparr>authStatus := a, status := st\<rparr>) w)" (is "later i w ?w1")
    by (rule later_upd) simp
  moreover have "later i ?w1 (emitEvent j AuthStatusChanged [(''status'', DStr label)] sev ?w1)"
    by (simp add: later_same emitEvent_def)
  ultimately show ?thesis
    unfolding setAuth_def by (rule later_trans)
qed

lemma later_updateAuthStatusFromOutput: "later i w (updateAuthStatusFromOutput j w)"
proof (cases "getInstance w j")
  case None
  then show ?thesis by (simp add: updateAuthStatusFromOutput_def later_refl)
next
  case (Some inst)
  obtain r w1 where g: "getInstanceOutput j w = (r, w1)"
    by (cases "getInstanceOutput j w")
  have a: "later i w w1"
    using maintainsD [where R = "later i" and m = "getInstanceOutput j" and w = w] g by simp
  have b: "later i w1 (updInstance j (\<lambda>x. x\<lparr>authStatus := Authenticated, status := Idle\<rparr>) w1)"
    by (rule later_upd) simp
  have c: "later i w (setAuth j x y z v w1)" for x y z v
    by (rule later_trans [OF a later_setAuth])
  show ?thesis
    using Some g later_trans [OF a b] c
    by (simp add: updateAuthStatusFromOutput_def Let_def split: sum.splits)
qed

lemma later_deliver: "later i w (deliver j ev w)"
proof -
  have e: "later i w' (emitEvent j ty d sev w')" for w' ty d sev
    by (simp add: later_same emitEvent_def)
  have u: "(\<And>x. lastInactivityCheck (f x) = lastInactivityCheck x) \<Longrightarrow>
           later i w (emitEvent j ty d sev (updInstance j f w))" for f ty d sev
    by (rule later_trans [OF later_upd e])
  have started: "later i w (onAmpStarted j w)"
    by (simp add: onAmpStarted_def later_refl u split: option.splits)
  have idle: "later i w (onAmpIdle j w)"
    by (simp add: onAmpIdle_def later_refl u split: option.splits)
  have changed: "later i w (onStateChanged j st w)" for st
  proof (cases "getInstance w j")
    case None
    then show ?thesis by (simp add: onStateChanged_def later_refl)
  next
    case (Some inst)
    let ?w1 = "updInstance j (\<lambda>x. x\<lparr>lastActivity := clock w\<rparr>) w"
    have a: "later i w ?w1" by (rule later_upd) simp
    have b: "later i ?w1 (emitEvent j ty d sev (updInstance j f ?w1))"
      if "\<And>x. lastInactivityCheck (f x) = lastInactivityCheck x" for f ty d sev
      by (rule later_trans [OF later_upd e]) (rule that)
    show ?thesis
      using Some a later_trans [OF a b]
      by (simp add: onStateChanged_def Let_def)
  qed
  show ?thesis
    by (cases ev) (simp_all add: deliver_def started idle changed)
qed

lemma later_logMonitors: "later i w (w\<lparr>logMonitors := x\<rparr>)"
  by (simp add: later_same)

lemma later_logMonitorPoll: "later i w (logMonitorPoll rt j content w)"
  by (auto simp: logMonitorPoll_def later_refl split: option.splits prod.splits
      intro!: later_trans [OF later_logMonitors later_fold] later_deliver)

lemma later_logMonitorRefresh: "later i w (logMonitorRefresh rt j content w)"
  by (auto simp: logMonitorRefresh_def later_refl split: option.splits prod.splits
      intro!: later_trans [OF later_logMonitors later_fold] later_deliver)


lemma getInstance_mapSet:
  "getInstance (mapSet j v w) i = (if i = j then Some v else getInstance w i)"
proof (cases "j \<in> fst ` set (instances w)")
  case True
  then have "map_of (instances w) j \<noteq> None"
    by (simp add: map_of_eq_None_iff)
  then show ?thesis
    using True by (auto simp: mapSet_def getInstance_def [of w])
next
  case False
  then have "map_of (instances w) j = None"
    by (simp add: map_of_eq_None_iff)
  then show ?thesis
    using False by (auto simp: mapSet_def getInstance_def map_add_def split: option.splits)
qed

lemma clock_mapSet [simp]: "clock (mapSet j v w) = clock w"
  by (simp add: mapSet_def)

lemma later_checkAuthStatus:
  "later i w (snd (checkAuthStatus inst w))"
  "lastInactivityCheck (fst (checkAuthStatus inst w)) = lastInactivityCheck inst"
proof -
  let ?w1 = "sleep 2000 (emitEvent (instId inst) AuthStatusChanged
                             [(''status'', DStr ''checking'')] Info w)"
  have a: "later i w ?w1"
    by (simp add: later_same sleep_def emitEvent_def)
  have b: "later i ?w1 (popped (?w1\<lparr>sent := sent ?w1 @ [x]\<rparr>))" for x
    by (rule later_popped)
  have c: "later i w' (emitEvent j ty d sev w')" for w' j ty d sev
    by (simp add: later_same emitEvent_def)
  show "later i w (snd (checkAuthStatus inst w))"
    using later_trans [OF a b] later_trans [OF later_trans [OF a b] c]
    by (simp add: checkAuthStatus_def tmux_eq Let_def)
  show "lastInactivityCheck (fst (checkAuthStatus inst w)) = lastInactivityCheck inst"
    by (simp add: checkAuthStatus_def tmux_eq Let_def)
qed

lemma later_clock: "later i w w' \<Longrightarrow> clock w \<le> clock w'"
  by (simp add: later_def)

lemma later_createInstance: "later i w (snd (createInstance uuid cfg w))"
proof (cases "sessionExists w")
  case False
  then show ?thesis by (simp add: createInstance_def later_refl)
next
  case True
  obtain r1 w1 where c1: "fsCall ''/tmp/amp-manager'' w = (r1, w1)"
    by (cases "fsCall ''/tmp/amp-manager'' w")
  have l1: "later i w w1"
    using maintainsD [where R = "later i" and m = "fsCall ''/tmp/amp-manager''" and w = w] c1
    by simp
  show ?thesis
  proof (cases r1)
    case (Inl e)
    then show ?thesis using True c1 l1 by (simp add: createInstance_def)
  next
    case (Inr u1)
    let ?pre = "newInstance uuid cfg w1"
    let ?t = "tmux [''new-window'', ''-t'', sessionName w1, ''-n'', name ?pre, ''-c'',
                    the (workingDirectory ?pre)]"
    obtain r2 w2 where c2: "?t w1 = (r2, w2)"
      by (cases "?t w1")
    have l2: "later i w w2"
      using maintainsD [where R = "later i" and m = ?t and w = w1] c2 l1
      by (auto intro: later_trans)
    show ?thesis
    proof (cases r2)
      case (Inl e)
      then show ?thesis using True c1 Inr c2 l2 by (simp add: createInstance_def Let_def)
    next
      case (Inr u2)
      let ?inst = "newInstance uuid cfg w2"
      let ?s = "steps [setupInstanceEnvironment ?inst, startAmpCLI ?inst]"
      obtain r3 w3 where c3: "?s w2 = (r3, w3)"
        by (cases "?s w2")
      have "maintains (later i) ?s"
        by (rule later_steps) auto
      then have l3: "later i w w3"
        using maintainsD [where R = "later i" and m = ?s and w = w2] c3 l2
        by (auto intro: later_trans)
      show ?thesis
      proof (cases r3)
        case (Inl e)
        then show ?thesis
          using True c1 \<open>r1 = Inr u1\<close> c2 Inr c3 l3 by (simp add: createInstance_def Let_def)
      next
        case (Inr u3)
        obtain inst' w4 where c4: "checkAuthStatus ?inst w3 = (inst', w4)"
          by (cases "checkAuthStatus ?inst w3")
        have l4: "later i w w4"
          using later_checkAuthStatus(1) [where i = i and inst = ?inst and w = w3] c4 l3
          by (auto intro: later_trans)
        have lic: "lastInactivityCheck inst' = clock w2"
          using later_checkAuthStatus(2) [where inst = ?inst and w = w3] c4
          by (simp add: newInstance_def Let_def)
        let ?p = "if truthy_str (initialPrompt (config inst'))
               then sendPrompt uuid (the (initialPrompt (config inst'))) w4
               else (Inr (), w4)"
        obtain r5 w5 where c5: "?p = (r5, w5)"
          by (cases ?p)
        have "later i w4 w5"
          using c5 maintainsD [where R = "later i" and w = w4
              and m = "sendPrompt uuid (the (initialPrompt (config inst')))"]
          by (auto simp: later_refl split: if_splits)
        then have l5: "later i w w5"
          using l4 by (rule later_trans [rotated])
        show ?thesis
        proof (cases r5)
          case (Inl e)
          then show ?thesis
            using True c1 \<open>r1 = Inr u1\<close> c2 \<open>r2 = Inr u2\<close> c3 Inr c4 c5 l5
            by (simp add: createInstance_def Let_def)
        next
          case (Inr u5)
          let ?final = "emitEvent uuid StatusChanged
                [(''status'', DStr ''idle''), (''name'', DStr (name inst'))] Info
                (startLogMonitoring uuid (startOutputMonitoring uuid (mapSet uuid inst' w5)))"
          have res: "snd (createInstance uuid cfg w) = ?final"
            using True c1 \<open>r1 = Inr u1\<close> c2 \<open>r2 = Inr u2\<close> c3 \<open>r3 = Inr u3\<close> c4 c5 Inr
            by (simp add: createInstance_def Let_def)
          have g: "getInstance ?final i = (if i = uuid then Some inst' else getInstance w5 i)"
            by (simp add: getInstance_mapSet)
          have ck: "clock ?final = clock w5"
            by simp
          have "clock w \<le> clock w2"
            using l2 by (rule later_clock)
          then have "later i w ?final"
            using l5 lic g ck by (auto simp: later_def split: option.splits)
          then show ?thesis using res by simp
        qed
      qed
    qed
  qed
qed

lemma later_exec: "later i w (exec rt op w)"
proof (cases op)
  case (Elapse ms)
  then show ?thesis by (simp add: later_same sleep_def)
next
  case (Script outcomes)
  then show ?thesis by (simp add: later_same)
qed (simp_all add: later_createInstance maintainsD later_checkInstanceHealth
      later_outputMonitorTick later_updateAuthStatusFromOutput later_logMonitorPoll
      later_logMonitorRefresh)

lemma later_run: "later i w (run rt ops w)"
  unfolding run_def by (rule later_fold) (rule later_exec)

lemma restart_registered:
  assumes "getInstance w i = Some inst"
  shows "getInstance (snd (restartInstance j reason w)) i \<noteq> None"
proof (cases "getInstance w j")
  case None
  then show ?thesis using assms by (simp add: restartInstance_def)
next
  case (Some x)
  let ?pre = "restartPrefix j reason (target w x)"
  obtain r1 w1 where pre: "steps ?pre w = (r1, w1)"
    by (cases "steps ?pre w")
  have g1: "getInstance w1 i = Some inst"
    using keeps_getInstance [OF keeps_prefix, of j reason "target w x" w i] pre assms by simp
  show ?thesis
  proof (cases r1)
    case (Inl e)
    then show ?thesis
      using pre g1 by (simp add: restart_split [OF Some] steps_append)
  next
    case (Inr u)
    obtain r2 w2 where suf: "steps (restartSuffix j) (resetInstance j w1) = (r2, w2)"
      by (cases "steps (restartSuffix j) (resetInstance j w1)")
    have "getInstance w2 i = getInstance (resetInstance j w1) i"
      using keeps_getInstance [OF keeps_suffix, of j "resetInstance j w1" i] suf by simp
    then show ?thesis
      using pre Inr suf g1
      by (auto simp: restart_split [OF Some] steps_append ok_def resetInstance_def)
  qed
qed

lemma fresh_mono: "L \<le> L' \<Longrightarrow> fresh L' i w \<Longrightarrow> fresh L i w"
  by (auto simp: fresh_def split: option.splits)

lemma later_prefix: "maintains (later i) (steps (restartPrefix j reason tgt))"
  by (rule later_steps) (auto simp: restartPrefix_def)

lemma later_suffix: "maintains (later i) (steps (restartSuffix j))"
  by (rule later_steps) (auto simp: restartSuffix_def intro!: later_withInstance)

lemma restart_fresh:
  assumes reg: "getInstance w i = Some inst" and ok2: "list_all io_ok (take 2 (io w))"
  shows "fresh (clock w) i (snd (restartInstance i reason w))"
proof -
  let ?pre = "restartPrefix i reason (target w inst)"
  obtain r1 w1 where pre: "steps ?pre w = (r1, w1)"
    by (cases "steps ?pre w")
  have r1: "r1 = Inr ()"
    using fst_prefix [of i reason "target w inst" w] pre ok2 by simp
  have g1: "getInstance w1 i = Some inst"
    using keeps_getInstance [OF keeps_prefix, of i reason "target w inst" w i] pre reg by simp
  have "later i w w1"
    using maintainsD [OF later_prefix [of i i reason "target w inst"], of w] pre by simp
  then have c1: "clock w \<le> clock w1"
    by (rule later_clock)
  have "fresh (clock w1) i (resetInstance i w1)"
    using g1 by (simp add: fresh_def resetInstance_def)
  then have f1: "fresh (clock w) i (resetInstance i w1)"
    using c1 by (rule fresh_mono [rotated])
  have "later i (resetInstance i w1) (snd (steps (restartSuffix i) (resetInstance i w1)))"
    by (rule maintainsD [OF later_suffix])
  then have "fresh (clock w) i (snd (steps (restartSuffix i) (resetInstance i w1)))"
    using f1 by (auto intro: fresh_later)
  moreover have "restartInstance i reason w = steps (restartSuffix i) (resetInstance i w1)"
    using pre r1 by (simp add: restart_split [OF reg] steps_append ok_def)
  ultimately show ?thesis by simp
qed

lemma restart_first_event:
  assumes reg: "getInstance w i = Some inst"
  shows "\<exists>tail. events (snd (restartInstance i reason w)) =
           events w @
           \<lparr>instanceId = i, ev_timestamp = clock w, ev_type = RestartTriggered,
             ev_data = [(''reason'', case reason of None \<Rightarrow> DUndefined | Some r \<Rightarrow> DStr r)],
             ev_severity = Warn\<rparr> # tail"
proof -
  let ?w1 = "emitEvent i RestartTriggered
               [(''reason'', case reason of None \<Rightarrow> DUndefined | Some r \<Rightarrow> DStr r)] Warn w"
  let ?rest = "tl (restartPrefix i reason (target w inst)) @ [ok (resetInstance i)] @ restartSuffix i"
  have eq: "restartInstance i reason w = steps ?rest ?w1"
    by (simp add: restart_split [OF reg] restartPrefix_def ok_def)
  have "maintains quiet (steps ?rest)"
    by (rule quiet_steps) (auto simp: restartPrefix_def restartSuffix_def intro!: quiet_withInstance)
  then have "quiet ?w1 (snd (steps ?rest ?w1))"
    by (simp add: maintains_def)
  then obtain tail where "events (snd (steps ?rest ?w1)) = events ?w1 @ tail"
    by (auto simp: quiet_def)
  then show ?thesis
    using eq by (simp add: emitEvent_def)
qed

lemma inactivity_acts:
  assumes reg: "getInstance w i = Some inst"
    and due: "60000 < now - lastInactivityCheck inst"
      "inactivityThreshold inst * 1000 < now - lastActivity inst"
  shows "inactivityCheck now i w =
     (let wa = emitEvent i InactivityDetected
                 [(''inactivitySeconds'', DSeconds (now - lastActivity inst)),
                  (''threshold'', DNum (inactivityThreshold inst))] Warn
                 (updInstance i (\<lambda>x. x\<lparr>lastInactivityCheck := now\<rparr>) w)
      in if autoRestart (config inst) \<noteq> Some False
         then restartInstance i
                (Some (''Inactivity detected: '' @
                       render_int ((now - lastActivity inst) div 1000) @ ''s'')) wa
         else (Inr (), wa))"
  using assms
  by (auto simp: inactivityCheck_def Let_def ok_def autoRestartEnabled_def
      split: prod.splits sum.splits)

lemma throttle:
  "fresh L i W \<Longrightarrow> now' \<le> L + 60000 \<Longrightarrow> inactivityCheck now' i W = (Inr (), W)"
  by (auto simp: inactivityCheck_def Let_def fresh_def split: option.splits)

lemma fresh_untilNextVisit:
  assumes "fresh L i (snd (inactivityCheck now i w))"
  shows "fresh L i (untilNextVisit now i ks rt ops now' js w)"
proof -
  have "later i (snd (inactivityCheck now i w)) (healthCheckOne now i w)"
    using maintainsD [OF later_checkForErrorPatterns [of i i], of "snd (inactivityCheck now i w)"]
    by (auto simp: healthCheckOne_body later_refl split: prod.splits sum.splits)
  then have "fresh L i (healthCheckOne now i w)"
    using assms by (auto intro: fresh_later)
  then have "fresh L i (fold (healthCheckOne now) ks (healthCheckOne now i w))"
    by (rule fresh_later) (rule later_fold, rule later_healthCheckOne)
  then have "fresh L i (run rt ops (fold (healthCheckOne now) ks (healthCheckOne now i w)))"
    by (rule fresh_later) (rule later_run)
  then show ?thesis
    unfolding untilNextVisit_def
    by (rule fresh_later) (rule later_fold, rule later_healthCheckOne)
qed



subsection \<open>A slow sweep\<close>

lemma busy_more [simp]:
  "settingsDir busyWorld = ''/home/dev/.config/amp-manager''"
  "cwd busyWorld = ''/home/dev/project''"
  "sessionExists busyWorld"
  "globalAmpSettings busyWorld = defaultGlobalSettings"
  by (simp_all add: busyWorld_def sendPrompt_def executePrompt_def truthy_def
      ok_def tmux_eq next_ok_def popped_def emitEvent_def updInstance_def getInstance_def
      target_def noStats_def plainInstance_def emptyConfig_def defaultGlobalSettings_def
      allowlist_of_def plainWorld_def createdWorld_def world0_def)

lemma pair_fields [simp]:
  "instances pairWorld = [(plainId, busyInstance), (guardedId, lateGuarded)]"
  "clock pairWorld = 1700000006400"
  "io pairWorld = []"
  "sessionName pairWorld = ''amp-manager''"
  "settingsDir pairWorld = ''/home/dev/.config/amp-manager''"
  by (simp_all add: pairWorld_def lateGuarded_def guardedInstance_def guardedConfig_def
      guardedId_def plainId_def noStats_def eval_defs)

lemma slow_sweeps:
  "restartsOf guardedId
     (newEvents slowSweepWorld
        (run exampleRuntime [WatchdogSweep, Elapse 3300, WatchdogSweep] slowSweepWorld)) =
   [(1700000265220, [(''reason'', DStr ''Inactivity detected: 203s'')]),
    (1700000268540, [(''reason'', DStr ''Inactivity detected: 265s'')])]"
  by (simp add: run_def restartsOf_def newEvents_def slowSweepWorld_def checkInstanceHealth_def
      healthCheckOne_def
      inactivityCheck_def checkForErrorPatterns_def autoRestartEnabled_def
      render_int_def decimal.simps
      slow_def success_def failure_def lateGuarded_def guardedInstance_def guardedConfig_def
      busyInstance_def plainInstance_def guardedId_def plainId_def noStats_def eval_defs)


section \<open>Log lines without a message\<close>

lemma processLines_untouched:
  "processLines rt now ls st =
   processLines rt now (filter (\<lambda>line. stampOf rt line \<noteq> None) ls) st"
proof (induction ls arbitrary: st)
  case Nil
  show ?case by simp
next
  case (Cons line ls)
  show ?case
  proof (cases "JSON_parse rt line")
    case None
    then show ?thesis using Cons.IH [of st] by (simp add: stampOf_def)
  next
    case (Some logEntry)
    show ?thesis
    proof (cases "logEntry = JNull")
      case True
      then show ?thesis using Some Cons.IH [of st]
        by (simp add: stampOf_def processLogEntry_def)
    next
      case False
      obtain threw st' evs where p: "processLogEntry rt now st logEntry = (threw, st', evs)"
        by (cases "processLogEntry rt now st logEntry")
      show ?thesis using Some False p Cons.IH [of st'] by (simp add: stampOf_def)
    qed
  qed
qed

lemma processLines_skip:
  assumes "\<not> hasMessage rt line"
  shows "processLines rt now (line # ls) st =
         processLines rt now ls
           (case stampOf rt line of None \<Rightarrow> st | Some t \<Rightarrow> st\<lparr>st_lastActivity := t\<rparr>)"
proof (cases "JSON_parse rt line")
  case None
  then show ?thesis by (simp add: stampOf_def)
next
  case (Some entry)
  show ?thesis
  proof (cases "entry = JNull")
    case True
    then show ?thesis using Some by (simp add: stampOf_def processLogEntry_def)
  next
    case False
    have "processLogEntry rt now st entry =
          (True, st\<lparr>st_lastActivity := Date_time rt (jprop entry ''timestamp'')\<rparr>, [])"
      using assms Some False
      by (auto simp: hasMessage_def processLogEntry_def Let_def split: option.splits json.splits)
    then show ?thesis using Some False
      by (cases "processLines rt now ls (st\<lparr>st_lastActivity := Date_time rt (jprop entry ''timestamp'')\<rparr>)")
         (simp add: stampOf_def)
  qed
qed

lemma processLines_all_skipped:
  "list_all (\<lambda>line. \<not> hasMessage rt line) ls \<Longrightarrow>
   processLines rt now ls st =
     (st\<lparr>st_lastActivity := last (st_lastActivity st # List.map_filter (stampOf rt) ls)\<rparr>, [])"
proof (induction ls arbitrary: st)
  case Nil
  show ?case by (simp add: List.map_filter_simps)
next
  case (Cons line ls)
  then have no: "\<not> hasMessage rt line" and rest: "list_all (\<lambda>line. \<not> hasMessage rt line) ls"
    by simp_all
  show ?case
  proof (cases "stampOf rt line")
    case None
    then show ?thesis
      using processLines_skip [OF no, of now ls st] Cons.IH [OF rest, of st]
      by (simp add: List.map_filter_simps)
  next
    case (Some t)
    then show ?thesis
      using processLines_skip [OF no, of now ls st]
        Cons.IH [OF rest, of "st\<lparr>st_lastActivity := t\<rparr>"]
      by (simp add: List.map_filter_simps)
  qed
qed

text \<open>  Claim C9, as the code has it. \<open>parseLogContent\<close> is a total function of the chunk and the
  state, so nothing is thrown out of it.
  \<^item> A line that \<open>JSON.parse\<close> rejects, or that parses to \<open>null\<close>, leaves no trace: the
    result is that of the loop on the chunk without these lines.
  \<^item> A line without a string \<open>message\<close>, wherever it stands, emits no event and leaves
    \<open>type\<close>, \<open>statusMessage\<close> and \<open>inferenceState\<close> alone; but if it parsed to a value other
    than \<open>null\<close>, the loop goes on with \<open>lastActivity\<close> set to the date made from its
    \<open>timestamp\<close>.
  \<^item> A chunk made of such lines only emits nothing, and returns the state with
    \<open>lastActivity\<close> set by the last of its lines that parsed to a value other than \<open>null\<close>,
    if there is one.\<close>

theorem C9_lines_without_message:
  "parseLogContent rt now content st =
     processLines rt now (filter (\<lambda>line. stampOf rt line \<noteq> None) (log_lines content)) st \<and>
   (\<not> hasMessage rt line \<longrightarrow>
      processLines rt now (line # ls) st =
        processLines rt now ls
          (case stampOf rt line of None \<Rightarrow> st | Some t \<Rightarrow> st\<lparr>st_lastActivity := t\<rparr>)) \<and>
   (list_all (\<lambda>line. \<not> hasMessage rt line) (log_lines content) \<longrightarrow>
      parseLogContent rt now content st =
        (st\<lparr>st_lastActivity :=
              last (st_lastActivity st # List.map_filter (stampOf rt) (log_lines content))\<rparr>,
         []))"
  using processLines_untouched [of rt now "log_lines content" st]
    processLines_skip [of rt line now ls st]
    processLines_all_skipped [of rt "log_lines content" now st]
  by (simp add: parseLogContent_def)

lemma numberRuntime_parse:
  "JSON_parse numberRuntime ''Error: stream closed'' = None"
  "JSON_parse numberRuntime ''{\"timestamp\":17000'' = None"
  "JSON_parse numberRuntime ''42'' = Some (JNum 42)"
  "JSON_parse numberRuntime agentLine = Some agentEntry"
  "Date_time numberRuntime None = None"
  by (simp_all add: numberRuntime_def exampleRuntime_def agentLine_def)

lemma number_lines:
  "log_lines numberChunk = [''42'']"
  "log_lines brokenChunk = [''Error: stream closed'', ''{\"timestamp\":17000'']"
  "log_lines mixedChunk =
     [''Error: stream closed'', ''{\"timestamp\":17000'', ''42'']"
  by (simp_all add: log_lines_def brokenChunk_def numberChunk_def mixedChunk_def blank_def
      is_space_def)

text \<open>  Claim C9 as stated fails for a line that is JSON but not a record. The line \<open>42\<close> parses
  to a number; its \<open>timestamp\<close> is \<open>undefined\<close>, so \<open>lastActivity\<close> becomes an invalid date
  before \<open>message.match\<close> throws. No event is emitted, but the state is not what it was, and
  \<open>isRunning\<close> turns from true to false.\<close>

theorem C9_number_line_counterexample:
  "log_lines numberChunk = [''42''] \<and>
   JSON_parse numberRuntime ''42'' = Some (JNum 42) \<and>
   parseLogContent numberRuntime 1700000003300 numberChunk
       (initialState 1700000003200) =
     ((initialState 1700000003200)\<lparr>st_lastActivity := None\<rparr>, []) \<and>
   (initialState 1700000003200)\<lparr>st_lastActivity := None\<rparr> \<noteq> initialState 1700000003200 \<and>
   isRunning 1700000003300 (initialState 1700000003200) \<and>
   \<not> isRunning 1700000003300 ((initialState 1700000003200)\<lparr>st_lastActivity := None\<rparr>)"
  by (simp add: number_lines(1) numberRuntime_parse parseLogContent_def processLogEntry_def
      jprop_def Let_def initialState_def isRunning_def)

text \<open>The theorem for C9 at the chunk of two broken lines, at the same chunk followed by the
  line \<open>42\<close>, and at that line followed by a line of the agent.\<close>

theorem C9_lines_without_message_witness:
  "list_all (\<lambda>line. \<not> hasMessage numberRuntime line) (log_lines brokenChunk) \<and>
   parseLogContent numberRuntime 1700000003300 brokenChunk (initialState 1700000003200) =
     (initialState 1700000003200, []) \<and>
   list_all (\<lambda>line. \<not> hasMessage numberRuntime line)
     (log_lines mixedChunk) \<and>
   parseLogContent numberRuntime 1700000003300 mixedChunk
       (initialState 1700000003200) =
     ((initialState 1700000003200)\<lparr>st_lastActivity := None\<rparr>, []) \<and>
   \<not> hasMessage numberRuntime ''42'' \<and>
   processLines numberRuntime 1700000003300 [''42'', agentLine] (initialState 1700000003200) =
     processLines numberRuntime 1700000003300 [agentLine]
       ((initialState 1700000003200)\<lparr>st_lastActivity := None\<rparr>)"
proof -
  have hm: "\<not> hasMessage numberRuntime ''Error: stream closed''"
    "\<not> hasMessage numberRuntime ''{\"timestamp\":17000''"
    "\<not> hasMessage numberRuntime ''42''"
    by (simp_all add: hasMessage_def numberRuntime_parse jprop_def)
  have st: "stampOf numberRuntime ''Error: stream closed'' = None"
    "stampOf numberRuntime ''{\"timestamp\":17000'' = None"
    "stampOf numberRuntime ''42'' = Some None"
    by (simp_all add: stampOf_def numberRuntime_parse jprop_def)
  have all1: "list_all (\<lambda>line. \<not> hasMessage numberRuntime line) (log_lines brokenChunk)"
    by (simp add: number_lines(2) hm)
  have all2: "list_all (\<lambda>line. \<not> hasMessage numberRuntime line)
     (log_lines mixedChunk)"
    by (simp add: number_lines(3) hm)
  note a = C9_lines_without_message
    [of numberRuntime 1700000003300 brokenChunk "initialState 1700000003200"]
  note b = C9_lines_without_message
    [of numberRuntime 1700000003300 mixedChunk
        "initialState 1700000003200" "''42''" "[agentLine]"]
  have "parseLogContent numberRuntime 1700000003300 brokenChunk (initialState 1700000003200) =
     ((initialState 1700000003200)\<lparr>st_lastActivity :=
         last (st_lastActivity (initialState 1700000003200) #
               List.map_filter (stampOf numberRuntime) (log_lines brokenChunk))\<rparr>, [])"
    using a all1 by blast
  then have r1: "parseLogContent numberRuntime 1700000003300 brokenChunk
      (initialState 1700000003200) = (initialState 1700000003200, [])"
    by (simp add: number_lines(2) st List.map_filter_simps)
  have "parseLogContent numberRuntime 1700000003300 mixedChunk
       (initialState 1700000003200) =
     ((initialState 1700000003200)\<lparr>st_lastActivity :=
         last (st_lastActivity (initialState 1700000003200) #
               List.map_filter (stampOf numberRuntime)
                 (log_lines mixedChunk))\<rparr>, [])"
    using b all2 by blast
  then have r2: "parseLogContent numberRuntime 1700000003300 mixedChunk
       (initialState 1700000003200) =
     ((initialState 1700000003200)\<lparr>st_lastActivity := None\<rparr>, [])"
    by (simp add: number_lines(3) st List.map_filter_simps)
  have "processLines numberRuntime 1700000003300 (''42'' # [agentLine])
          (initialState 1700000003200) =
        processLines numberRuntime 1700000003300 [agentLine]
          (case stampOf numberRuntime ''42'' of
             None \<Rightarrow> initialState 1700000003200
           | Some t \<Rightarrow> (initialState 1700000003200)\<lparr>st_lastActivity := t\<rparr>)"
    using b hm(3) by blast
  then have r3: "processLines numberRuntime 1700000003300 [''42'', agentLine]
      (initialState 1700000003200) =
     processLines numberRuntime 1700000003300 [agentLine]
       ((initialState 1700000003200)\<lparr>st_lastActivity := None\<rparr>)"
    by (simp add: st)
  show ?thesis
    using all1 r1 all2 r2 hm(3) r3 by blast
qed

section \<open>What \<open>listInstances\<close> hands out\<close>

subsection \<open>Stores that agree\<close>

lemma readCell_agree:
  assumes "agreeOn s s'" and "readCell s r = Some c"
  shows "readCell s' r = Some c"
proof -
  from assms(2) have lt: "r < length (cells s)" and c: "c = cells s ! r"
    by (auto simp: readCell_def split: if_splits)
  have "take (length (cells s)) (cells s') ! r = cells s' ! r"
    using lt by simp
  then have "cells s' ! r = cells s ! r"
    using assms(1) by (simp add: agreeOn_def)
  moreover have "r < length (cells s')"
    using lt assms(1) by (simp add: agreeOn_def)
  ultimately show ?thesis
    using c by (simp add: readCell_def)
qed

lemma reads_agree:
  assumes "agreeOn s s'"
  shows "readInstance s r = Some obj \<Longrightarrow> readInstance s' r = Some obj"
    and "readConfig s r = Some c \<Longrightarrow> readConfig s' r = Some c"
    and "readArray s r = Some xs \<Longrightarrow> readArray s' r = Some xs"
    and "readStats s r = Some st \<Longrightarrow> readStats s' r = Some st"
    and "readPending s ro = Some pc \<Longrightarrow> readPending s' ro = Some pc"
    and "readSettings s ro = Some a \<Longrightarrow> readSettings s' ro = Some a"
  using readCell_agree [OF assms]
  by (auto simp: readInstance_def readConfig_def readArray_def readStats_def readPending_def
      readSettings_def split: option.splits cell.splits)

lemma load_agree:
  assumes ag: "agreeOn s s'" and ld: "load s r = Some v"
  shows "load s' r = Some v"
proof -
  from ld obtain obj out pc st cfg pats settings where
    r: "readInstance s r = Some obj" "readArray s (o_output obj) = Some out"
       "readPending s (o_pendingCommand obj) = Some pc" "readStats s (o_stats obj) = Some st"
       "readConfig s (o_config obj) = Some cfg" "readArray s (o_errorPatterns obj) = Some pats"
       "readSettings s (o_ampSettings obj) = Some settings"
    and v: "v = \<lparr>instId = o_instId obj, name = o_name obj, tmuxPane = o_tmuxPane obj,
             status = o_status obj, createdAt = o_createdAt obj,
             lastActivity = o_lastActivity obj,
             lastInactivityCheck = o_lastInactivityCheck obj,
             workingDirectory = o_workingDirectory obj, logFile = o_logFile obj,
             outputLines = out, currentPrompt = o_currentPrompt obj,
             threadId = o_threadId obj, authStatus = o_authStatus obj,
             pendingCommand = pc, stats = st, config = cfg, errorPatterns = pats,
             inactivityThreshold = o_inactivityThreshold obj,
             ampSettings = settings\<rparr>"
    by (auto simp: load_def bind_eq_Some_conv)
  note keep = reads_agree [OF ag]
  show ?thesis
    using keep(1) [OF r(1)] keep(3) [OF r(2)] keep(5) [OF r(3)] keep(4) [OF r(4)]
      keep(2) [OF r(5)] keep(3) [OF r(6)] keep(6) [OF r(7)] v
    by (simp add: load_def)
qed

lemma agreeOn_refl: "agreeOn s s"
  by (simp add: agreeOn_def)

lemma agreeOn_trans:
  assumes "agreeOn a b" and "agreeOn b c"
  shows "agreeOn a c"
proof -
  have ab: "length (cells a) \<le> length (cells b)" "take (length (cells a)) (cells b) = cells a"
    using assms(1) by (simp_all add: agreeOn_def)
  have bc: "length (cells b) \<le> length (cells c)" "take (length (cells b)) (cells c) = cells b"
    using assms(2) by (simp_all add: agreeOn_def)
  have "take (length (cells a)) (cells c) =
        take (length (cells a)) (take (length (cells b)) (cells c))"
    using ab(1) by (simp add: min_def)
  also have "\<dots> = take (length (cells a)) (cells b)"
    by (simp only: bc(2))
  also have "\<dots> = cells a"
    by (rule ab(2))
  finally show ?thesis
    using ab(1) bc(1) by (simp add: agreeOn_def)
qed

lemma agreeOn_alloc: "agreeOn s (snd (alloc c s))"
  by (simp add: agreeOn_def alloc_def)

lemma agreeOn_write: "agreeOn s s' \<Longrightarrow> length (cells s) \<le> a \<Longrightarrow> agreeOn s (writeCell a c s')"
  by (simp add: agreeOn_def writeCell_def)

lemma length_alloc [simp]:
  "fst (alloc c s) = length (cells s)"
  "cells (snd (alloc c s)) = cells s @ [c]"
  "registry (snd (alloc c s)) = registry s"
  by (simp_all add: alloc_def)

lemma agreeOn_length: "agreeOn s s' \<Longrightarrow> length (cells s) \<le> length (cells s')"
  by (simp add: agreeOn_def)

lemma readInstance_alloc_new [simp]:
  "readInstance (snd (alloc (InstanceCell obj) s)) (length (cells s)) = Some obj"
  by (simp add: readInstance_def readCell_def)

lemma readStats_alloc_new [simp]:
  "readStats (snd (alloc (StatsCell st) s)) (length (cells s)) = Some st"
  by (simp add: readStats_def readCell_def)

lemma readPending_alloc_new [simp]:
  "readPending (snd (alloc (PendingCell p) s)) (Some (length (cells s))) = Some (Some p)"
  by (simp add: readPending_def readCell_def)

text \<open>What one snapshot does.\<close>

lemma snapshotOne_facts:
  assumes snap: "snapshotOne r s = Some (r', s')"
  shows "agreeOn s s'" and "registry s' = registry s"
    and "freshRecord (length (cells s)) s' r'" and "sharesNested s' r' r"
    and "load s r = Some v \<Longrightarrow> load s' r' = Some v"
proof -
  from snap obtain obj st pc where
    r: "readInstance s r = Some obj" "readStats s (o_stats obj) = Some st"
       "readPending s (o_pendingCommand obj) = Some pc"
    by (auto simp: snapshotOne_def bind_eq_Some_conv)
  let ?s1 = "snd (alloc (StatsCell st) s)"
  let ?n = "length (cells s)"
  have a1: "agreeOn s ?s1" by (rule agreeOn_alloc)
  have all: "agreeOn s s' \<and> registry s' = registry s \<and>
    freshRecord (length (cells s)) s' r' \<and> sharesNested s' r' r \<and>
    (load s r = Some v \<longrightarrow> load s' r' = Some v)"
  proof (cases pc)
    case None
    let ?obj' = "obj\<lparr>o_stats := ?n\<rparr>"
    have res: "r' = Suc ?n" "s' = snd (alloc (InstanceCell ?obj') ?s1)"
      using snap r None by (auto simp: snapshotOne_def alloc_def)
    have a2: "agreeOn ?s1 s'" unfolding res by (rule agreeOn_alloc)
    have ag: "agreeOn s s'" by (rule agreeOn_trans [OF a1 a2])
    have rg: "registry s' = registry s" by (simp add: res)
    have ri: "readInstance s' r' = Some ?obj'"
      unfolding res using readInstance_alloc_new [of ?obj' ?s1] by simp
    have pn: "o_pendingCommand obj = None"
      using r(3) None by (auto simp: readPending_def split: option.splits cell.splits)
    have fr: "freshRecord (length (cells s)) s' r'"
      using ri pn by (simp add: freshRecord_def res)
    have sh: "sharesNested s' r' r"
      using ri reads_agree(1) [OF ag r(1)] by (simp add: sharesNested_def)
    have "load s' r' = Some v" if ld: "load s r = Some v"
    proof -
    from ld r(1) obtain out cfg pats settings where
      rr: "readArray s (o_output obj) = Some out" "readConfig s (o_config obj) = Some cfg"
          "readArray s (o_errorPatterns obj) = Some pats"
          "readSettings s (o_ampSettings obj) = Some settings"
      and v: "v = \<lparr>instId = o_instId obj, name = o_name obj, tmuxPane = o_tmuxPane obj,
             status = o_status obj, createdAt = o_createdAt obj,
             lastActivity = o_lastActivity obj,
             lastInactivityCheck = o_lastInactivityCheck obj,
             workingDirectory = o_workingDirectory obj, logFile = o_logFile obj,
             outputLines = out, currentPrompt = o_currentPrompt obj,
             threadId = o_threadId obj, authStatus = o_authStatus obj,
             pendingCommand = pc, stats = st, config = cfg, errorPatterns = pats,
             inactivityThreshold = o_inactivityThreshold obj,
             ampSettings = settings\<rparr>"
      using r(2,3) by (auto simp: load_def bind_eq_Some_conv)
    note keep = reads_agree [OF ag]
    have st': "readStats s' ?n = Some st"
      using reads_agree(4) [OF a2, of ?n st] by simp
    have pc': "readPending s' None = Some None"
      by (simp add: readPending_def)
    show "load s' r' = Some v"
      using ri keep(3) [OF rr(1)] keep(2) [OF rr(2)] keep(3) [OF rr(3)] keep(6) [OF rr(4)]
        st' pc' v None pn
      by (simp add: load_def)
    qed
    then show ?thesis using ag rg fr sh by blast
  next
    case (Some p)
    let ?s2 = "snd (alloc (PendingCell p) ?s1)"
    let ?obj' = "obj\<lparr>o_stats := ?n, o_pendingCommand := Some (Suc ?n)\<rparr>"
    have res: "r' = Suc (Suc ?n)" "s' = snd (alloc (InstanceCell ?obj') ?s2)"
      using snap r Some by (auto simp: snapshotOne_def alloc_def)
    have a2: "agreeOn ?s1 ?s2" by (rule agreeOn_alloc)
    have a3: "agreeOn ?s2 s'" unfolding res by (rule agreeOn_alloc)
    have ag: "agreeOn s s'" by (rule agreeOn_trans [OF a1 agreeOn_trans [OF a2 a3]])
    have rg: "registry s' = registry s" by (simp add: res)
    have ri: "readInstance s' r' = Some ?obj'"
      unfolding res using readInstance_alloc_new [of ?obj' ?s2] by simp
    have fr: "freshRecord (length (cells s)) s' r'"
      using ri by (simp add: freshRecord_def res)
    have sh: "sharesNested s' r' r"
      using ri reads_agree(1) [OF ag r(1)] by (simp add: sharesNested_def)
    have "load s' r' = Some v" if ld: "load s r = Some v"
    proof -
    from ld r(1) obtain out cfg pats settings where
      rr: "readArray s (o_output obj) = Some out" "readConfig s (o_config obj) = Some cfg"
          "readArray s (o_errorPatterns obj) = Some pats"
          "readSettings s (o_ampSettings obj) = Some settings"
      and v: "v = \<lparr>instId = o_instId obj, name = o_name obj, tmuxPane = o_tmuxPane obj,
             status = o_status obj, createdAt = o_createdAt obj,
             lastActivity = o_lastActivity obj,
             lastInactivityCheck = o_lastInactivityCheck obj,
             workingDirectory = o_workingDirectory obj, logFile = o_logFile obj,
             outputLines = out, currentPrompt = o_currentPrompt obj,
             threadId = o_threadId obj, authStatus = o_authStatus obj,
             pendingCommand = pc, stats = st, config = cfg, errorPatterns = pats,
             inactivityThreshold = o_inactivityThreshold obj,
             ampSettings = settings\<rparr>"
      using r(2,3) by (auto simp: load_def bind_eq_Some_conv)
    note keep = reads_agree [OF ag]
    have st': "readStats s' ?n = Some st"
      using reads_agree(4) [OF agreeOn_trans [OF a2 a3], of ?n st] by simp
    have pc': "readPending s' (Some (Suc ?n)) = Some (Some p)"
      using reads_agree(5) [OF a3, of "Some (Suc ?n)" "Some p"]
        readPending_alloc_new [of p ?s1] by simp
    show "load s' r' = Some v"
      using ri keep(3) [OF rr(1)] keep(2) [OF rr(2)] keep(3) [OF rr(3)] keep(6) [OF rr(4)]
        st' pc' v Some
      by (simp add: load_def)
    qed
    then show ?thesis using ag rg fr sh by blast
  qed
  show "agreeOn s s'" "registry s' = registry s"
    "freshRecord (length (cells s)) s' r'" "sharesNested s' r' r"
    "load s r = Some v \<Longrightarrow> load s' r' = Some v"
    using all by blast+
qed

lemma snapshotOne_total:
  assumes "load s r \<noteq> None"
  shows "snapshotOne r s \<noteq> None"
proof -
  from assms obtain v where "load s r = Some v" by auto
  then obtain obj st pc where
    "readInstance s r = Some obj" "readStats s (o_stats obj) = Some st"
    "readPending s (o_pendingCommand obj) = Some pc"
    by (auto simp: load_def bind_eq_Some_conv)
  then show ?thesis
    by (simp add: snapshotOne_def split: option.splits prod.splits)
qed

subsection \<open>Listing\<close>

lemma freshRecord_agree:
  assumes "agreeOn s s'" and "freshRecord n s r"
  shows "freshRecord n s' r"
proof -
  from assms(2) obtain obj where "readInstance s r = Some obj"
    by (auto simp: freshRecord_def split: option.splits)
  then show ?thesis
    using assms(2) reads_agree(1) [OF assms(1), of r obj] by (simp add: freshRecord_def)
qed

lemma freshRecord_mono: "m \<le> n \<Longrightarrow> freshRecord n s r \<Longrightarrow> freshRecord m s r"
  by (auto simp: freshRecord_def split: option.splits)

lemma sharesNested_agree:
  assumes "agreeOn s s'" and "sharesNested s r' r"
  shows "sharesNested s' r' r"
proof -
  from assms(2) obtain obj' obj where "readInstance s r' = Some obj'" "readInstance s r = Some obj"
    by (auto simp: sharesNested_def split: option.splits)
  then show ?thesis
    using assms(2) reads_agree(1) [OF assms(1), of r' obj'] reads_agree(1) [OF assms(1), of r obj]
    by (simp add: sharesNested_def)
qed

lemma snapshotAll_facts:
  assumes "snapshotAll rs s = Some (rs', s')"
  shows "agreeOn s s' \<and> registry s' = registry s \<and>
         list_all (freshRecord (length (cells s)) s') rs' \<and>
         list_all2 (sharesNested s') rs' rs \<and>
         (list_all (\<lambda>r. load s r \<noteq> None) rs \<longrightarrow> map (load s') rs' = map (load s) rs)"
  using assms
proof (induction rs arbitrary: s rs' s')
  case Nil
  then show ?case by (simp add: agreeOn_refl)
next
  case (Cons r rs)
  from Cons.prems obtain r1 s1 rs1 where
    one: "snapshotOne r s = Some (r1, s1)" and
    more: "snapshotAll rs s1 = Some (rs1, s')" and
    res: "rs' = r1 # rs1"
    by (auto split: option.splits)
  note f = snapshotOne_facts [OF one]
  note ih = Cons.IH [OF more]
  have ag1: "agreeOn s s1" by (rule f(1))
  have ag2: "agreeOn s1 s'" using ih by simp
  have ag: "agreeOn s s'" by (rule agreeOn_trans [OF ag1 ag2])
  have le: "length (cells s) \<le> length (cells s1)" by (rule agreeOn_length [OF ag1])
  have fr1: "freshRecord (length (cells s)) s' r1"
    by (rule freshRecord_agree [OF ag2 f(3)])
  have frs: "list_all (freshRecord (length (cells s)) s') rs1"
    using ih le by (auto simp: list_all_iff intro: freshRecord_mono)
  have sh1: "sharesNested s' r1 r"
    by (rule sharesNested_agree [OF ag2 f(4)])
  have shs: "list_all2 (sharesNested s') rs1 rs"
    using ih by simp
  have lds: "map (load s') rs' = map (load s) (r # rs)"
    if wf: "list_all (\<lambda>r. load s r \<noteq> None) (r # rs)"
  proof -
    from wf obtain v where v: "load s r = Some v" by auto
    have "load s1 r1 = Some v" by (rule f(5) [OF v])
    then have h: "load s' r1 = load s r"
      using load_agree [OF ag2] v by simp
    have same: "load s1 x = load s x" if "x \<in> set rs" for x
    proof -
      from wf that obtain u where "load s x = Some u" by (auto simp: list_all_iff)
      then show ?thesis using load_agree [OF ag1] by simp
    qed
    then have "list_all (\<lambda>r. load s1 r \<noteq> None) rs"
      using wf by (auto simp: list_all_iff)
    then have "map (load s') rs1 = map (load s1) rs"
      using ih by simp
    also have "\<dots> = map (load s) rs"
      using same by simp
    finally show ?thesis using h res by simp
  qed
  show ?case
    using ag f(2) ih fr1 frs sh1 shs lds res by simp
qed

lemma snapshotAll_total:
  "list_all (\<lambda>r. load s r \<noteq> None) rs \<Longrightarrow> snapshotAll rs s \<noteq> None"
proof (induction rs arbitrary: s)
  case Nil
  then show ?case by simp
next
  case (Cons r rs)
  then obtain r1 s1 where one: "snapshotOne r s = Some (r1, s1)"
    using snapshotOne_total [of s r] by auto
  have ag1: "agreeOn s s1" by (rule snapshotOne_facts(1) [OF one])
  have "load s1 x \<noteq> None" if "x \<in> set rs" for x
  proof -
    from Cons.prems that obtain u where "load s x = Some u" by (auto simp: list_all_iff)
    then show ?thesis using load_agree [OF ag1] by simp
  qed
  then have "list_all (\<lambda>r. load s1 r \<noteq> None) rs"
    by (simp add: list_all_iff)
  then have "snapshotAll rs s1 \<noteq> None"
    by (rule Cons.IH)
  then show ?case using one by (auto split: option.splits)
qed

text \<open>
  Claim C8, as the code has it. In a well-formed store \<open>listInstances\<close> returns; the registry
  is the same afterwards; each returned record reads as the registered instance it was made
  from, and holds the very configuration object, output array, pattern array and settings
  object of that instance. Replacing a returned record, its statistics object or its
  pending command object leaves every registered instance as it was. Nothing of the sort
  holds for the shared objects: see the counterexample that follows.
\<close>

theorem C8_snapshot_is_shallow:
  assumes wf: "wellFormed s"
  shows "\<exists>rs s'. listInstances s = Some (rs, s') \<and>
           registry s' = registry s \<and>
           map (load s') rs = map (load s) (map snd (registry s)) \<and>
           list_all2 (sharesNested s') rs (map snd (registry s)) \<and>
           (\<forall>r' \<in> set rs. \<forall>rr \<in> set (map snd (registry s)). \<forall>c.
              untouched s s' rr \<and>
              untouched s (writeCell r' c s') rr \<and>
              (\<forall>obj'. readInstance s' r' = Some obj' \<longrightarrow>
                 untouched s (writeCell (o_stats obj') c s') rr \<and>
                 (\<forall>rp. o_pendingCommand obj' = Some rp \<longrightarrow>
                    untouched s (writeCell rp c s') rr)))"
proof -
  let ?regs = "map snd (registry s)"
  have wf': "list_all (\<lambda>r. load s r \<noteq> None) ?regs"
    using wf by (auto simp: wellFormed_def list_all_iff)
  then obtain rs s' where li: "snapshotAll ?regs s = Some (rs, s')"
    using snapshotAll_total [of s ?regs] by auto
  note f = snapshotAll_facts [OF li]
  have ag: "agreeOn s s'" using f by simp
  have frame: "untouched s s'' rr" if "agreeOn s s''" "rr \<in> set ?regs" for s'' rr
  proof -
    from wf' that(2) obtain v where "load s rr = Some v" by (auto simp: list_all_iff)
    then show ?thesis using load_agree [OF that(1)] by (simp add: untouched_def)
  qed
  have "untouched s s' rr \<and>
        untouched s (writeCell r' c s') rr \<and>
        (\<forall>obj'. readInstance s' r' = Some obj' \<longrightarrow>
           untouched s (writeCell (o_stats obj') c s') rr \<and>
           (\<forall>rp. o_pendingCommand obj' = Some rp \<longrightarrow> untouched s (writeCell rp c s') rr))"
    if r': "r' \<in> set rs" and rr: "rr \<in> set ?regs" for r' rr c
  proof -
    have fr: "freshRecord (length (cells s)) s' r'"
      using f r' by (auto simp: list_all_iff)
    have 1: "untouched s (writeCell r' c s') rr"
      using fr by (intro frame [OF agreeOn_write [OF ag] rr]) (simp add: freshRecord_def)
    have 2: "untouched s (writeCell (o_stats obj') c s') rr"
      if "readInstance s' r' = Some obj'" for obj'
      using fr that by (intro frame [OF agreeOn_write [OF ag] rr]) (simp add: freshRecord_def)
    have 3: "untouched s (writeCell rp c s') rr"
      if "readInstance s' r' = Some obj'" "o_pendingCommand obj' = Some rp" for obj' rp
      using fr that by (intro frame [OF agreeOn_write [OF ag] rr]) (simp add: freshRecord_def)
    show ?thesis
      using frame [OF ag rr] 1 2 3 by blast
  qed
  then show ?thesis
    using li f wf' by (auto simp: listInstances_def)
qed

subsection \<open>The example store\<close>

lemmas store_defs = storeInstance_def alloc_def emptyStore_def readCell_def readInstance_def
  readConfig_def readArray_def readStats_def readPending_def readSettings_def load_def
  snapshotOne_def listInstances_def writeCell_def

lemma exampleStore_cells:
  "length (cells exampleStore) = 13" "registry exampleStore = [(guardedId, 6), (plainId, 12)]"
  by (simp_all add: exampleStore_def heldInstance_def busyInstance_def plainInstance_def guardedInstance_def newInstance_def store_defs)

lemmas example_defs = exampleStore_def heldInstance_def busyInstance_def plainInstance_def
  guardedInstance_def newInstance_def

lemma exampleStore_wellFormed: "wellFormed exampleStore"
  by (simp add: wellFormed_def example_defs store_defs)

lemma exampleStore_loads:
  "load exampleStore 6 = Some heldInstance" "load exampleStore 12 = Some busyInstance"
  by (simp_all add: example_defs store_defs)

lemma exampleStore_listed: "listInstances exampleStore = Some ([15, 17], listedStore)"
  by (simp add: listedStore_def example_defs store_defs)

lemma listed_objects:
  "map_option o_config (readInstance listedStore 15) = Some 2"
  "map_option o_stats (readInstance listedStore 15) = Some 13"
  "map_option o_pendingCommand (readInstance listedStore 15) = Some (Some 14)"
  "map_option o_config (readInstance exampleStore 6) = Some 2"
  by (simp_all add: listedStore_def example_defs store_defs)

lemma exampleStore_toggled:
  "toggleAutoRestart guardedId exampleStore = Some (Some True, toggledStore)"
  "toggledStore = writeCell 2 (ConfigCell (guardedConfig\<lparr>autoRestart := Some True\<rparr>)) listedStore"
  by (simp_all add: toggledStore_def toggleAutoRestart_def hasId_def Let_def guardedId_def plainId_def listedStore_def example_defs store_defs guardedConfig_def emptyConfig_def)

lemma toggled_registered:
  "map_option (autoRestart \<circ> config) (registered exampleStore guardedId) = Some None"
  "map_option (autoRestart \<circ> config) (registered toggledStore guardedId) = Some (Some True)"
  by (simp_all add: registered_def toggledStore_def toggleAutoRestart_def hasId_def Let_def guardedId_def plainId_def listedStore_def example_defs store_defs guardedConfig_def emptyConfig_def)

text \<open>
  Claim C8 as stated fails for the nested \<open>config\<close>. In the example store the record that
  \<open>listInstances\<close> returns for \<open>guarded\<close> (address 15) holds the configuration object of
  the registered instance (address 2). \<open>toggle_auto_restart\<close> assigns to it, and the
  instance in the registry, which had \<open>autoRestart\<close> unset, now has it set to \<open>true\<close>.
\<close>

theorem C8_shared_config_counterexample:
  "listInstances exampleStore = Some ([15, 17], listedStore) \<and>
   map_option o_config (readInstance listedStore 15) = Some 2 \<and>
   map_option o_config (readInstance exampleStore 6) = Some 2 \<and>
   toggledStore = writeCell 2 (ConfigCell (guardedConfig\<lparr>autoRestart := Some True\<rparr>)) listedStore \<and>
   toggleAutoRestart guardedId exampleStore = Some (Some True, toggledStore) \<and>
   map_option (autoRestart \<circ> config) (registered exampleStore guardedId) = Some None \<and>
   map_option (autoRestart \<circ> config) (registered toggledStore guardedId) = Some (Some True)"
  using exampleStore_listed listed_objects(1,4) exampleStore_toggled toggled_registered
  by blast

text \<open>The theorem for C8 at the example store.\<close>

theorem C8_snapshot_witness:
  "wellFormed exampleStore \<and>
   listInstances exampleStore = Some ([15, 17], listedStore) \<and>
   registry listedStore = [(guardedId, 6), (plainId, 12)] \<and>
   map (load listedStore) [15, 17] = [Some heldInstance, Some busyInstance] \<and>
   sharesNested listedStore 15 6 \<and>
   untouched exampleStore (writeCell 15 (ArrayCell []) listedStore) 6 \<and>
   untouched exampleStore (writeCell 13 (StatsCell (noStats\<lparr>restartCount := 9\<rparr>)) listedStore) 6 \<and>
   untouched exampleStore
     (writeCell 14 (PendingCell \<lparr>command = ''ls'', requiresApproval = False, timestamp = 0\<rparr>)
        listedStore) 6"
proof -
  obtain rs s' where
    li: "listInstances exampleStore = Some (rs, s')" and
    reg: "registry s' = registry exampleStore" and
    lds: "map (load s') rs = map (load exampleStore) (map snd (registry exampleStore))" and
    sh: "list_all2 (sharesNested s') rs (map snd (registry exampleStore))" and
    fr: "\<forall>r' \<in> set rs. \<forall>rr \<in> set (map snd (registry exampleStore)). \<forall>c.
           untouched exampleStore s' rr \<and>
           untouched exampleStore (writeCell r' c s') rr \<and>
           (\<forall>obj'. readInstance s' r' = Some obj' \<longrightarrow>
              untouched exampleStore (writeCell (o_stats obj') c s') rr \<and>
              (\<forall>rp. o_pendingCommand obj' = Some rp \<longrightarrow>
                 untouched exampleStore (writeCell rp c s') rr))"
    using C8_snapshot_is_shallow [OF exampleStore_wellFormed] by blast
  have eq: "rs = [15, 17]" "s' = listedStore"
    using li exampleStore_listed by simp_all
  have mem: "15 \<in> set rs" "6 \<in> set (map snd (registry exampleStore))"
    using eq exampleStore_cells(2) by simp_all
  note at = fr [rule_format, OF mem]
  obtain obj' where obj:
    "readInstance listedStore 15 = Some obj'" "o_stats obj' = 13" "o_pendingCommand obj' = Some 14"
    using listed_objects(2,3) by auto
  have 1: "untouched exampleStore (writeCell 15 c listedStore) 6" for c
    using at [of c] eq by simp
  have 2: "untouched exampleStore (writeCell 13 c listedStore) 6" for c
    using at [of c] eq obj by auto
  have 3: "untouched exampleStore (writeCell 14 c listedStore) 6" for c
    using at [of c] eq obj by auto
  have 4: "map (load listedStore) [15, 17] = [Some heldInstance, Some busyInstance]"
    using lds eq exampleStore_cells(2) exampleStore_loads by simp
  have 5: "sharesNested listedStore 15 6"
    using sh eq exampleStore_cells(2) by simp
  have 6: "registry listedStore = [(guardedId, 6), (plainId, 12)]"
    using reg eq exampleStore_cells(2) by simp
  show ?thesis
    using exampleStore_wellFormed exampleStore_listed 1 2 3 4 5 6 by blast
qed

end
